theory Spec2Isabelle
  imports Main "HOL-Library.AList" "HOL-Library.Sublist"
begin

section \<open>Values\<close>

text \<open>
  The values a parsed configuration file can hold: scalars, sequences and nested
  mappings. A Python \<^verbatim>\<open>dict\<close> keeps its keys in insertion order and holds each key
  once, so a mapping is an association list; \<open>map_of\<close> is the lookup \<^verbatim>\<open>d[k]\<close>,
  and \<open>AList.update\<close> is the assignment \<^verbatim>\<open>d[k] = v\<close> (an existing key keeps its
  place, a new key goes last). Keys are strings, as \<^verbatim>\<open>dict[str, Any]\<close> says.
  The scalars are \<^verbatim>\<open>None\<close>, booleans, integers and strings; the code never looks
  inside a scalar, so any other scalar of the parser behaves as these do.
  A name of the source that starts with an underscore is written with the prefix
  \<open>u_\<close> here (\<^verbatim>\<open>_merge_dicts\<close> is \<open>u_merge_dicts\<close>).
\<close>

datatype pyval =
    PNone
  | PBool bool
  | PInt int
  | PStr string
  | PList "pyval list"
  | PDict "(string \<times> pyval) list"

type_synonym dict = "(string \<times> pyval) list"

text \<open>The keys of a mapping, and the invariant of a Python dict: no key twice.\<close>

definition keys :: "dict \<Rightarrow> string set" where
  "keys d = fst ` set d"

definition distinct_keys :: "dict \<Rightarrow> bool" where
  "distinct_keys d = distinct (map fst d)"

text \<open>\<^verbatim>\<open>isinstance(v, dict)\<close>.\<close>

fun isinstance_dict :: "pyval \<Rightarrow> bool" where
  "isinstance_dict (PDict d) = True"
| "isinstance_dict v = False"

section \<open>The mapping merger\<close>

text \<open>
  \<^verbatim>\<open>_merge_dicts\<close> of utilities.py. The first argument of the recursion is the
  local \<^verbatim>\<open>merged\<close>, which starts as \<^verbatim>\<open>base.copy()\<close>; the second is what is
  left of \<^verbatim>\<open>overlay.items()\<close>.
\<close>

fun u_merge_dicts :: "dict \<Rightarrow> dict \<Rightarrow> dict" where
  "u_merge_dicts merged [] = merged"
| "u_merge_dicts merged ((overlay_key, overlay_value) # items) =
     u_merge_dicts
       (if overlay_key \<in> fst ` set merged then
          (case (overlay_value, map_of merged overlay_key) of
             (PDict ov, Some (PDict bv)) \<Rightarrow>
               AList.update overlay_key (PDict (u_merge_dicts bv ov)) merged
           | _ \<Rightarrow> AList.update overlay_key overlay_value merged)
        else AList.update overlay_key overlay_value merged)
       items"

text \<open>\<^verbatim>\<open>merge_dicts\<close> of config_builder.py, a second copy of the same text.\<close>

fun merge_dicts :: "dict \<Rightarrow> dict \<Rightarrow> dict" where
  "merge_dicts merged [] = merged"
| "merge_dicts merged ((overlay_key, overlay_value) # items) =
     merge_dicts
       (if overlay_key \<in> fst ` set merged then
          (case (overlay_value, map_of merged overlay_key) of
             (PDict ov, Some (PDict bv)) \<Rightarrow>
               AList.update overlay_key (PDict (merge_dicts bv ov)) merged
           | _ \<Rightarrow> AList.update overlay_key overlay_value merged)
        else AList.update overlay_key overlay_value merged)
       items"

section \<open>Strings and paths\<close>

text \<open>
  The methods of Python's \<^verbatim>\<open>str\<close> the source calls. \<^verbatim>\<open>s.split(".")\<close> always
  returns at least one part; \<^verbatim>\<open>sep.join(parts)\<close> puts \<open>sep\<close> between the parts;
  \<^verbatim>\<open>s.replace(old, new)\<close> replaces the occurrences of \<open>old\<close> from the left, without
  overlap, and with an empty \<open>old\<close> puts \<open>new\<close> before every character and at the end.
\<close>

fun str_split :: "char \<Rightarrow> string \<Rightarrow> string list" where
  "str_split sep [] = [[]]"
| "str_split sep (c # cs) =
     (if c = sep then [] # str_split sep cs
      else (case str_split sep cs of
              [] \<Rightarrow> [[c]]
            | part # parts \<Rightarrow> (c # part) # parts))"

fun str_join :: "string \<Rightarrow> string list \<Rightarrow> string" where
  "str_join sep [] = []"
| "str_join sep [part] = part"
| "str_join sep (part # parts) = part @ sep @ str_join sep parts"

fun str_replace :: "string \<Rightarrow> string \<Rightarrow> string \<Rightarrow> string" where
  "str_replace old new [] = (if old = [] then new else [])"
| "str_replace old new (c # cs) =
     (if old = [] then new @ c # str_replace old new cs
      else if prefix old (c # cs) then new @ str_replace old new (drop (length old - 1) cs)
      else c # str_replace old new cs)"

definition str_rstrip :: "char \<Rightarrow> string \<Rightarrow> string" where
  "str_rstrip ch s = rev (dropWhile (\<lambda>c. c = ch) (rev s))"

text \<open>
  \<^verbatim>\<open>os.path.split\<close> on a POSIX system: the tail is what follows the last slash, the
  head is what precedes it, without its trailing slashes unless it is slashes only.
\<close>

definition os_path_split :: "string \<Rightarrow> string \<times> string" where
  "os_path_split p =
     (let tail = rev (takeWhile (\<lambda>c. c \<noteq> CHR ''/'') (rev p));
          head = take (length p - length tail) p
      in if head \<noteq> [] \<and> head \<noteq> replicate (length head) CHR ''/''
         then (str_rstrip CHR ''/'' head, tail)
         else (head, tail))"

text \<open>\<^verbatim>\<open>_split_package_file_path\<close> of utilities.py.\<close>

definition u_split_package_file_path :: "string \<Rightarrow> string \<times> string" where
  "u_split_package_file_path file_path =
     (let (full_path, file_name) = os_path_split file_path;
          package_path = str_replace ''/'' ''.'' (str_replace file_name [] full_path)
      in (package_path, file_name))"

text \<open>\<^verbatim>\<open>split_package_file_path\<close> of config_builder.py.\<close>

definition split_package_file_path :: "string \<Rightarrow> string \<times> string" where
  "split_package_file_path file_path =
     (let (full_path, file_name) = os_path_split file_path;
          package_path = str_replace ''/'' ''.'' (str_replace file_name [] full_path)
      in (package_path, file_name))"

section \<open>The overlay paths\<close>

text \<open>
  \<^verbatim>\<open>_add_config_set_files\<close> of utilities.py. \<open>u_new_file_path\<close> is the body of its
  loop, named after the local it computes; the loop appends it to
  \<^verbatim>\<open>environment_config_files\<close>.
\<close>

definition u_new_file_path :: "string \<Rightarrow> string \<Rightarrow> string" where
  "u_new_file_path config_file config_set =
     (let file_parts = str_split CHR ''.'' config_file;
          file_extension = last file_parts;
          remainder_of_file_path = butlast file_parts;
          all_path_parts = remainder_of_file_path @ [config_set] @ [file_extension]
      in str_join ''.'' all_path_parts)"

fun u_add_config_set_files_loop ::
  "string list \<Rightarrow> string \<Rightarrow> string list \<Rightarrow> string list" where
  "u_add_config_set_files_loop environment_config_files config_set [] =
     environment_config_files"
| "u_add_config_set_files_loop environment_config_files config_set (config_file # rest) =
     u_add_config_set_files_loop
       (environment_config_files @ [u_new_file_path config_file config_set]) config_set rest"

definition u_add_config_set_files :: "string list \<Rightarrow> string \<Rightarrow> string list" where
  "u_add_config_set_files config_files config_set =
     config_files @ u_add_config_set_files_loop [] config_set config_files"

text \<open>\<^verbatim>\<open>add_config_set_files\<close> of config_builder.py.\<close>

definition new_file_path :: "string \<Rightarrow> string \<Rightarrow> string" where
  "new_file_path config_file config_set =
     (let file_parts = str_split CHR ''.'' config_file;
          file_extension = last file_parts;
          remainder_of_file_path = butlast file_parts;
          all_path_parts = remainder_of_file_path @ [config_set] @ [file_extension]
      in str_join ''.'' all_path_parts)"

fun add_config_set_files_loop ::
  "string list \<Rightarrow> string \<Rightarrow> string list \<Rightarrow> string list" where
  "add_config_set_files_loop environment_config_files config_set [] =
     environment_config_files"
| "add_config_set_files_loop environment_config_files config_set (config_file # rest) =
     add_config_set_files_loop
       (environment_config_files @ [new_file_path config_file config_set]) config_set rest"

definition add_config_set_files :: "string list \<Rightarrow> string \<Rightarrow> string list" where
  "add_config_set_files config_files config_set =
     config_files @ add_config_set_files_loop [] config_set config_files"

section \<open>Exceptions\<close>

text \<open>
  The exceptions the code itself raises or provokes, with their messages.
  \<open>exc_str\<close> is \<^verbatim>\<open>str(e)\<close>. A value without the attribute a call needs gives
  Python's \<^verbatim>\<open>AttributeError\<close>, with the name of the value's type in the message.
\<close>

datatype pyexc =
    NotImplementedError string
  | ValueError string
  | AttributeError string

fun exc_str :: "pyexc \<Rightarrow> string" where
  "exc_str (NotImplementedError msg) = msg"
| "exc_str (ValueError msg) = msg"
| "exc_str (AttributeError msg) = msg"

fun type_name :: "pyval \<Rightarrow> string" where
  "type_name PNone = ''NoneType''"
| "type_name (PBool b) = ''bool''"
| "type_name (PInt i) = ''int''"
| "type_name (PStr s) = ''str''"
| "type_name (PList vs) = ''list''"
| "type_name (PDict d) = ''dict''"

definition no_attribute :: "pyval \<Rightarrow> string \<Rightarrow> pyexc" where
  "no_attribute v attr =
     AttributeError ([CHR 0x27] @ type_name v @ [CHR 0x27] @ '' object has no attribute ''
                     @ [CHR 0x27] @ attr @ [CHR 0x27])"

text \<open>
  A resolution call fails with an exception of the code above, with whatever the
  resource lookup or the parser raised (other than "file not found"), or with what
  the constructor of the configuration class raised. The last two come from outside
  the code and are kept as they are.
\<close>

datatype ('e, 'v) failure =
    Raised pyexc
  | SourceLoadFailure 'e
  | ValidationFailure 'v

section \<open>The source loader\<close>

text \<open>
  What opening and parsing the resource \<open>file_name\<close> of the package \<open>package_path\<close>
  does is outside the code: the file is not there, or another exception is raised
  (by the lookup, the read or the parser), or \<^verbatim>\<open>yaml.safe_load\<close> returns a value,
  which is \<^verbatim>\<open>None\<close> for a file with no content. The loader takes it as a
  parameter.
\<close>

datatype 'e opened =
    FileNotFoundError
  | OtherException 'e
  | Parsed pyval

type_synonym 'e resources = "string \<Rightarrow> string \<Rightarrow> 'e opened"

text \<open>\<^verbatim>\<open>_load_yaml\<close> and \<^verbatim>\<open>_load_configs\<close> of utilities.py.\<close>

definition u_load_yaml :: "'e resources \<Rightarrow> string \<Rightarrow> string \<Rightarrow> 'e + pyval" where
  "u_load_yaml resources package_path file_name =
     (case resources package_path file_name of
        Parsed content \<Rightarrow> Inr content
      | FileNotFoundError \<Rightarrow> Inr (PDict [])
      | OtherException e \<Rightarrow> Inl e)"

fun u_load_configs_loop ::
  "'e resources \<Rightarrow> pyval list \<Rightarrow> string list \<Rightarrow> 'e + pyval list" where
  "u_load_configs_loop resources config_dicts [] = Inr config_dicts"
| "u_load_configs_loop resources config_dicts (file_path # rest) =
     (case u_split_package_file_path file_path of
        (package_path, file_name) \<Rightarrow>
          (case u_load_yaml resources package_path file_name of
             Inl e \<Rightarrow> Inl e
           | Inr config_dict \<Rightarrow>
               u_load_configs_loop resources
                 (if config_dict \<noteq> PNone then config_dicts @ [config_dict] else config_dicts)
                 rest))"

definition u_load_configs :: "'e resources \<Rightarrow> string list \<Rightarrow> 'e + pyval list" where
  "u_load_configs resources config_files = u_load_configs_loop resources [] config_files"

text \<open>\<^verbatim>\<open>load_yaml\<close> and \<^verbatim>\<open>load_configs\<close> of config_builder.py.\<close>

definition load_yaml :: "'e resources \<Rightarrow> string \<Rightarrow> string \<Rightarrow> 'e + pyval" where
  "load_yaml resources package_path file_name =
     (case resources package_path file_name of
        Parsed content \<Rightarrow> Inr content
      | FileNotFoundError \<Rightarrow> Inr (PDict [])
      | OtherException e \<Rightarrow> Inl e)"

fun load_configs_loop ::
  "'e resources \<Rightarrow> pyval list \<Rightarrow> string list \<Rightarrow> 'e + pyval list" where
  "load_configs_loop resources config_dicts [] = Inr config_dicts"
| "load_configs_loop resources config_dicts (file_path # rest) =
     (case split_package_file_path file_path of
        (package_path, file_name) \<Rightarrow>
          (case load_yaml resources package_path file_name of
             Inl e \<Rightarrow> Inl e
           | Inr config_dict \<Rightarrow>
               load_configs_loop resources
                 (if config_dict \<noteq> PNone then config_dicts @ [config_dict] else config_dicts)
                 rest))"

definition load_configs :: "'e resources \<Rightarrow> string list \<Rightarrow> 'e + pyval list" where
  "load_configs resources config_files = load_configs_loop resources [] config_files"

section \<open>Folding the loaded mappings\<close>

text \<open>
  \<^verbatim>\<open>functools.reduce\<close> with an initial value. What the loader returns is whatever
  the parser gave, so the second argument of a merge may be a value that is no dict:
  \<^verbatim>\<open>overlay.items()\<close> then raises \<^verbatim>\<open>AttributeError\<close>. The first argument is
  the empty dict or the result of a merge.
\<close>

fun functools_reduce :: "('a \<Rightarrow> 'b \<Rightarrow> pyexc + 'a) \<Rightarrow> 'b list \<Rightarrow> 'a \<Rightarrow> pyexc + 'a" where
  "functools_reduce f [] acc = Inr acc"
| "functools_reduce f (x # xs) acc =
     (case f acc x of
        Inl e \<Rightarrow> Inl e
      | Inr acc' \<Rightarrow> functools_reduce f xs acc')"

definition u_merge_dicts_call :: "dict \<Rightarrow> pyval \<Rightarrow> pyexc + dict" where
  "u_merge_dicts_call base overlay =
     (case overlay of
        PDict items \<Rightarrow> Inr (u_merge_dicts base items)
      | _ \<Rightarrow> Inl (no_attribute overlay ''items''))"

definition u_merge_all_dicts :: "pyval list \<Rightarrow> pyexc + dict" where
  "u_merge_all_dicts dicts = functools_reduce u_merge_dicts_call dicts []"

definition merge_dicts_call :: "dict \<Rightarrow> pyval \<Rightarrow> pyexc + dict" where
  "merge_dicts_call base overlay =
     (case overlay of
        PDict items \<Rightarrow> Inr (merge_dicts base items)
      | _ \<Rightarrow> Inl (no_attribute overlay ''items''))"

definition merge_all_dicts :: "pyval list \<Rightarrow> pyexc + dict" where
  "merge_all_dicts dicts = functools_reduce merge_dicts_call dicts []"

section \<open>The declaration of a configuration class\<close>

text \<open>
  What \<^verbatim>\<open>config_files\<close> sees of a class: \<^verbatim>\<open>hasattr(cls, "_config_files")\<close> is
  false, or the attribute is there and its \<^verbatim>\<open>.default\<close> is a value (the source:
  "\<^verbatim>\<open>.default\<close> is how to access the default value for a pydantic class on static
  properties"). The three exceptions, under the names the specification gives them.
\<close>

datatype class_attr =
    NoAttribute
  | Default pyval

definition DeclarationMissing :: pyexc where
  "DeclarationMissing =
     NotImplementedError ''You must define _config_files on your concrete class''"

definition DeclarationInvalid :: pyexc where
  "DeclarationInvalid =
     ValueError (''_config_files must be a list of strings, where ''
                 @ ''each string is a import path to a config file.'')"

definition DeclarationEmpty :: pyexc where
  "DeclarationEmpty = ValueError ''You must specify at least 1 file in _config_files''"

text \<open>\<^verbatim>\<open>isinstance(v, list)\<close>.\<close>

fun isinstance_list :: "pyval \<Rightarrow> bool" where
  "isinstance_list (PList vs) = True"
| "isinstance_list v = False"

text \<open>\<^verbatim>\<open>ChimeraConf.config_files\<close> of chimera_conf.py.\<close>

definition ChimeraConf_config_files :: "class_attr \<Rightarrow> pyexc + pyval list" where
  "ChimeraConf_config_files cls =
     (case cls of
        NoAttribute \<Rightarrow> Inl DeclarationMissing
      | Default config_files \<Rightarrow>
          (case config_files of
             PList entries \<Rightarrow>
               if length entries = 0 then Inl DeclarationEmpty else Inr entries
           | _ \<Rightarrow> Inl DeclarationInvalid))"

text \<open>\<^verbatim>\<open>ConfigBuilder.config_files\<close> of config_builder.py.\<close>

definition ConfigBuilder_config_files :: "class_attr \<Rightarrow> pyexc + pyval list" where
  "ConfigBuilder_config_files cls =
     (case cls of
        NoAttribute \<Rightarrow> Inl DeclarationMissing
      | Default config_files \<Rightarrow>
          (case config_files of
             PList entries \<Rightarrow>
               if length entries = 0 then Inl DeclarationEmpty else Inr entries
           | _ \<Rightarrow> Inl DeclarationInvalid))"

section \<open>The active variant\<close>

text \<open>
  The class attributes \<^verbatim>\<open>ChimeraForm.chimera_form\<close> (chimera_form.py) and
  \<^verbatim>\<open>ConfigSet.config_set\<close> (config_builder.py) are global state: a record, passed
  to the calls that read it and returned by the call that writes it.
\<close>

record ChimeraForm =
  chimera_form :: string

definition ChimeraForm_initial :: ChimeraForm where
  "ChimeraForm_initial = \<lparr>chimera_form = ''local''\<rparr>"

definition ChimeraForm_set_form :: "ChimeraForm \<Rightarrow> string \<Rightarrow> ChimeraForm" where
  "ChimeraForm_set_form cls form = cls\<lparr>chimera_form := form\<rparr>"

record ConfigSet =
  config_set :: string

definition ConfigSet_initial :: ConfigSet where
  "ConfigSet_initial = \<lparr>config_set = ''local''\<rparr>"

definition ConfigSet_set_config_set :: "ConfigSet \<Rightarrow> string \<Rightarrow> ConfigSet" where
  "ConfigSet_set_config_set cls name = cls\<lparr>config_set := name\<rparr>"

section \<open>The resolution call\<close>

text \<open>
  The exception \<^verbatim>\<open>manifest\<close> raises in place of the one \<^verbatim>\<open>config_files\<close>
  raised: a \<^verbatim>\<open>ValueError\<close> whose message names the class and quotes the original.
\<close>

definition ConfigFilesRequired :: "string \<Rightarrow> pyexc \<Rightarrow> pyexc" where
  "ConfigFilesRequired cls_name e =
     ValueError (''Config files must be provided via 'config_files_override' argument ''
                 @ ''as '' @ [CHR 0x27] @ cls_name @ [CHR 0x27]
                 @ '' does not define a valid default '_config_files'. Original error: ''
                 @ exc_str e)"

text \<open>
  The declared list is whatever list the class holds; \<^verbatim>\<open>config_file.split(".")\<close>
  in \<^verbatim>\<open>_add_config_set_files\<close> raises \<^verbatim>\<open>AttributeError\<close> at the first entry
  that is no string.
\<close>

fun str_entries :: "pyval list \<Rightarrow> pyexc + string list" where
  "str_entries [] = Inr []"
| "str_entries (v # vs) =
     (case v of
        PStr s \<Rightarrow> (case str_entries vs of Inl e \<Rightarrow> Inl e | Inr ss \<Rightarrow> Inr (s # ss))
      | _ \<Rightarrow> Inl (no_attribute v ''split''))"

definition u_add_config_set_files_call :: "pyval list \<Rightarrow> string \<Rightarrow> pyexc + string list" where
  "u_add_config_set_files_call config_files form =
     (case str_entries config_files of
        Inl e \<Rightarrow> Inl e
      | Inr paths \<Rightarrow> Inr (u_add_config_set_files paths form))"

definition add_config_set_files_call :: "pyval list \<Rightarrow> string \<Rightarrow> pyexc + string list" where
  "add_config_set_files_call config_files form =
     (case str_entries config_files of
        Inl e \<Rightarrow> Inl e
      | Inr paths \<Rightarrow> Inr (add_config_set_files paths form))"

text \<open>
  \<^verbatim>\<open>ChimeraConf.manifest\<close> of chimera_conf.py. The class is its name, its
  declaration and its constructor \<open>construct\<close> (\<^verbatim>\<open>cls(**merged_config)\<close>, which
  returns the object or raises).
\<close>

definition ChimeraConf_manifest ::
  "'e resources \<Rightarrow> ChimeraForm \<Rightarrow> string \<Rightarrow> class_attr \<Rightarrow> (dict \<Rightarrow> 'v + 'obj)
     \<Rightarrow> string option \<Rightarrow> string list option \<Rightarrow> ('e, 'v) failure + 'obj" where
  "ChimeraConf_manifest resources registry cls_name cls construct form_arg
       config_files_override =
     (let form = (case form_arg of None \<Rightarrow> chimera_form registry | Some f \<Rightarrow> f)
      in case (case config_files_override of
                 Some files \<Rightarrow> Inr (map PStr files)
               | None \<Rightarrow>
                   (case ChimeraConf_config_files cls of
                      Inr files \<Rightarrow> Inr files
                    | Inl e \<Rightarrow> Inl (Raised (ConfigFilesRequired cls_name e))))
         of
           Inl failure \<Rightarrow> Inl failure
         | Inr files_to_load \<Rightarrow>
             (case u_add_config_set_files_call files_to_load form of
                Inl e \<Rightarrow> Inl (Raised e)
              | Inr all_config_files \<Rightarrow>
                  (case u_load_configs resources all_config_files of
                     Inl e \<Rightarrow> Inl (SourceLoadFailure e)
                   | Inr config_dicts \<Rightarrow>
                       (case u_merge_all_dicts config_dicts of
                          Inl e \<Rightarrow> Inl (Raised e)
                        | Inr merged_config \<Rightarrow>
                            (case construct merged_config of
                               Inl e \<Rightarrow> Inl (ValidationFailure e)
                             | Inr obj \<Rightarrow> Inr obj)))))"

text \<open>\<^verbatim>\<open>ConfigBuilder.load_config\<close> of config_builder.py.\<close>

definition ConfigBuilder_load_config ::
  "'e resources \<Rightarrow> ConfigSet \<Rightarrow> string \<Rightarrow> class_attr \<Rightarrow> (dict \<Rightarrow> 'v + 'obj)
     \<Rightarrow> string option \<Rightarrow> string list option \<Rightarrow> ('e, 'v) failure + 'obj" where
  "ConfigBuilder_load_config resources registry cls_name cls construct config_set_arg
       config_files_override =
     (let name = (case config_set_arg of None \<Rightarrow> config_set registry | Some n \<Rightarrow> n)
      in case (case config_files_override of
                 Some files \<Rightarrow> Inr (map PStr files)
               | None \<Rightarrow>
                   (case ConfigBuilder_config_files cls of
                      Inr files \<Rightarrow> Inr files
                    | Inl e \<Rightarrow> Inl (Raised (ConfigFilesRequired cls_name e))))
         of
           Inl failure \<Rightarrow> Inl failure
         | Inr files_to_load \<Rightarrow>
             (case add_config_set_files_call files_to_load name of
                Inl e \<Rightarrow> Inl (Raised e)
              | Inr all_config_files \<Rightarrow>
                  (case load_configs resources all_config_files of
                     Inl e \<Rightarrow> Inl (SourceLoadFailure e)
                   | Inr config_dicts \<Rightarrow>
                       (case merge_all_dicts config_dicts of
                          Inl e \<Rightarrow> Inl (Raised e)
                        | Inr merged_config \<Rightarrow>
                            (case construct merged_config of
                               Inl e \<Rightarrow> Inl (ValidationFailure e)
                             | Inr obj \<Rightarrow> Inr obj)))))"

section \<open>The merger on a store of objects\<close>

text \<open>
  In the functions above a mapping is a value, so they cannot say whether
  \<^verbatim>\<open>_merge_dicts\<close> writes to the objects it is given. Here the dicts are objects in
  a store: a value is a scalar, a list, or a reference to a dict object; the store
  is the list of the dict objects, a reference is an index into it, and a new
  object goes to the end. Lists are kept as values, since the merge never writes
  to one.
\<close>

datatype hval =
    HNone
  | HBool bool
  | HInt int
  | HStr string
  | HList "hval list"
  | HRef nat

type_synonym hdict = "(string \<times> hval) list"
type_synonym heap = "hdict list"

text \<open>
  \<^verbatim>\<open>_merge_dicts\<close> on the store. \<^verbatim>\<open>base.copy()\<close> is a new object with the items of
  \<open>base\<close> (a shallow copy: nested dicts are shared). The loop reads item \<open>i\<close> of the
  \<open>overlay\<close> object from the current store and writes to the \<open>merged\<close> object only;
  the recursive call returns the store it leaves and the reference to its result.
  The first argument bounds the number of calls and loop steps: on a store with a
  cycle of references the recursion need not end, and the result is then \<open>None\<close>.
\<close>

fun h_merge_dicts :: "nat \<Rightarrow> heap \<Rightarrow> nat \<Rightarrow> nat \<Rightarrow> (heap \<times> nat) option"
  and h_merge_loop :: "nat \<Rightarrow> heap \<Rightarrow> nat \<Rightarrow> nat \<Rightarrow> nat \<Rightarrow> (heap \<times> nat) option" where
  "h_merge_dicts 0 h base overlay = None"
| "h_merge_dicts (Suc fuel) h base overlay =
     (if base < length h \<and> overlay < length h
      then h_merge_loop fuel (h @ [h ! base]) (length h) overlay 0
      else None)"
| "h_merge_loop 0 h merged overlay i =
     (if i < length (h ! overlay) then None else Some (h, merged))"
| "h_merge_loop (Suc fuel) h merged overlay i =
     (if i < length (h ! overlay) then
        (case (h ! overlay) ! i of
           (overlay_key, overlay_value) \<Rightarrow>
             (if overlay_key \<in> fst ` set (h ! merged) then
                (case (overlay_value, map_of (h ! merged) overlay_key) of
                   (HRef ov, Some (HRef bv)) \<Rightarrow>
                     (case h_merge_dicts fuel h bv ov of
                        None \<Rightarrow> None
                      | Some (h', r) \<Rightarrow>
                          h_merge_loop fuel
                            (h'[merged := AList.update overlay_key (HRef r) (h' ! merged)])
                            merged overlay (Suc i))
                 | _ \<Rightarrow>
                     h_merge_loop fuel
                       (h[merged := AList.update overlay_key overlay_value (h ! merged)])
                       merged overlay (Suc i))
              else
                h_merge_loop fuel
                  (h[merged := AList.update overlay_key overlay_value (h ! merged)])
                  merged overlay (Suc i)))
      else Some (h, merged))"

text \<open>
  The structural value of a stored value, followed through the references to the
  given depth: \<open>None\<close> when the structure is deeper or a reference leaves the store.
\<close>

fun h_value :: "nat \<Rightarrow> heap \<Rightarrow> hval \<Rightarrow> pyval option" where
  "h_value 0 h v = None"
| "h_value (Suc n) h v =
     (case v of
        HNone \<Rightarrow> Some PNone
      | HBool b \<Rightarrow> Some (PBool b)
      | HInt i \<Rightarrow> Some (PInt i)
      | HStr s \<Rightarrow> Some (PStr s)
      | HList vs \<Rightarrow> map_option PList (those (map (h_value n h) vs))
      | HRef a \<Rightarrow>
          (if a < length h
           then map_option PDict
                  (those (map (\<lambda>(k, x). map_option (Pair k) (h_value n h x)) (h ! a)))
           else None))"

text \<open>
  The structural value that follows no reference into a set \<open>X\<close> of objects, and
  the items of a dict object valued so. A value that avoids an object does not
  change when that object is written to.
\<close>

fun h_value_avoiding :: "nat set \<Rightarrow> nat \<Rightarrow> heap \<Rightarrow> hval \<Rightarrow> pyval option" where
  "h_value_avoiding X 0 h v = None"
| "h_value_avoiding X (Suc n) h v =
     (case v of
        HNone \<Rightarrow> Some PNone
      | HBool b \<Rightarrow> Some (PBool b)
      | HInt i \<Rightarrow> Some (PInt i)
      | HStr s \<Rightarrow> Some (PStr s)
      | HList vs \<Rightarrow> map_option PList (those (map (h_value_avoiding X n h) vs))
      | HRef a \<Rightarrow>
          (if a < length h \<and> a \<notin> X
           then map_option PDict
                  (those (map (\<lambda>(k, x). map_option (Pair k) (h_value_avoiding X n h x)) (h ! a)))
           else None))"

definition items_avoiding :: "nat set \<Rightarrow> nat \<Rightarrow> heap \<Rightarrow> hdict \<Rightarrow> dict option" where
  "items_avoiding X n h d =
     those (map (\<lambda>(k, x). map_option (Pair k) (h_value_avoiding X n h x)) d)"

text \<open>
  At depth \<open>n\<close> the merge on the store does what the merge on values does: when
  the base and the overlay have structural values, the call returns with enough
  fuel, and the structural value of its result is the merge of the two values.
\<close>

definition merge_refines_at :: "nat \<Rightarrow> bool" where
  "merge_refines_at n \<longleftrightarrow>
     (\<forall>X h base overlay a b.
        (\<forall>x\<in>X. x < length h) \<longrightarrow>
        h_value_avoiding X n h (HRef base) = Some (PDict a) \<longrightarrow>
        h_value_avoiding X n h (HRef overlay) = Some (PDict b) \<longrightarrow>
        (\<exists>fuel h' r. h_merge_dicts fuel h base overlay = Some (h', r)
           \<and> h_value_avoiding X n h' (HRef r) = Some (PDict (u_merge_dicts a b))))"

text \<open>
  A store for the examples: the base mapping at 0 with its nested mapping at 1, the
  overlay at 2 with its nested mapping at 3; and the store the merge of 0 and 2
  leaves, with the result at 4 and the merged nested mapping at 5.
\<close>

definition sample_heap :: heap where
  "sample_heap =
     [ [(''timeout'', HInt 10), (''nested'', HRef 1)],
       [(''a'', HInt 1), (''b'', HInt 2)],
       [(''nested'', HRef 3), (''tags'', HList [HStr ''x''])],
       [(''b'', HInt 99)] ]"

definition sample_heap_merged :: heap where
  "sample_heap_merged =
     sample_heap @
     [ [(''timeout'', HInt 10), (''nested'', HRef 5), (''tags'', HList [HStr ''x''])],
       [(''a'', HInt 1), (''b'', HInt 99)] ]"

section \<open>Notions for the properties\<close>

text \<open>
  The first two lines of the loop of \<^verbatim>\<open>_load_configs\<close>: what loading one path
  gives, before the loop decides whether to keep it.
\<close>

definition u_load_path :: "'e resources \<Rightarrow> string \<Rightarrow> 'e + pyval" where
  "u_load_path resources file_path =
     (case u_split_package_file_path file_path of
        (package_path, file_name) \<Rightarrow> u_load_yaml resources package_path file_name)"

text \<open>
  A small package for the examples: a base file, its \<^verbatim>\<open>prod\<close> overlay, a file
  with no content, and nothing else. The constructor of the examples accepts every
  merged mapping and returns it.
\<close>

definition sample_resources :: "unit resources" where
  "sample_resources package_path file_name =
     (if package_path = ''configs'' \<and> file_name = ''base.yml'' then
        Parsed (PDict [(''timeout'', PInt 10),
                       (''nested'', PDict [(''a'', PInt 1), (''b'', PInt 2)])])
      else if package_path = ''configs'' \<and> file_name = ''base.prod.yml'' then
        Parsed (PDict [(''nested'', PDict [(''b'', PInt 99)])])
      else if package_path = ''configs'' \<and> file_name = ''blank.yml'' then
        Parsed PNone
      else FileNotFoundError)"

definition sample_construct :: "dict \<Rightarrow> unit + dict" where
  "sample_construct merged_config = Inr merged_config"

text \<open>
  A field of a mapping at any depth: \<open>at_path v [k1, \<dots>, kn]\<close> is
  \<^verbatim>\<open>v[k1]\<dots>[kn]\<close>, if every step but the last finds a nested mapping with the
  key.
\<close>

fun at_path :: "pyval \<Rightarrow> string list \<Rightarrow> pyval option" where
  "at_path v [] = Some v"
| "at_path v (k # ks) =
     (case v of
        PDict d \<Rightarrow> (case map_of d k of None \<Rightarrow> None | Some v' \<Rightarrow> at_path v' ks)
      | _ \<Rightarrow> None)"

text \<open>The invariant of Python dicts, at every depth: no mapping holds a key twice.\<close>

fun unique_keys :: "pyval \<Rightarrow> bool" where
  "unique_keys (PDict d) = (distinct (map fst d) \<and> (\<forall>v \<in> snd ` set d. unique_keys v))"
| "unique_keys (PList vs) = (\<forall>v \<in> set vs. unique_keys v)"
| "unique_keys v = True"

text \<open>
  A mapping leaves the field at a path alone when it has no value at the path and
  none above it that is not a mapping: it lacks the first key, or holds a nested
  mapping there that leaves the rest of the path alone.
\<close>

fun leaves_alone :: "pyval \<Rightarrow> string list \<Rightarrow> bool" where
  "leaves_alone v [] = False"
| "leaves_alone v (k # ks) =
     (case v of
        PDict d \<Rightarrow> (case map_of d k of None \<Rightarrow> True | Some v' \<Rightarrow> leaves_alone v' ks)
      | _ \<Rightarrow> False)"

section \<open>Properties of the merger\<close>

text \<open>The value one pass of the loop stores under the overlay's key.\<close>

definition stored :: "pyval option \<Rightarrow> pyval \<Rightarrow> pyval" where
  "stored old v =
     (case (v, old) of
        (PDict ov, Some (PDict bv)) \<Rightarrow> PDict (u_merge_dicts bv ov)
      | _ \<Rightarrow> v)"

lemma u_merge_dicts_Cons:
  "u_merge_dicts merged ((k, v) # items) =
     u_merge_dicts (AList.update k (stored (map_of merged k) v) merged) items"
proof (cases "k \<in> fst ` set merged")
  case True
  then show ?thesis
    by (simp add: stored_def split: pyval.split option.split)
next
  case False
  then have "map_of merged k = None"
    by (simp add: map_of_eq_None_iff)
  with False show ?thesis
    by (simp add: stored_def split: pyval.split)
qed

lemma keys_u_merge_dicts: "keys (u_merge_dicts a b) = keys a \<union> keys b"
proof (induction b arbitrary: a)
  case Nil
  show ?case by (simp add: keys_def)
next
  case (Cons p b)
  obtain k v where p: "p = (k, v)" by (cases p)
  have "keys (u_merge_dicts a (p # b)) =
          keys (AList.update k (stored (map_of a k) v) a) \<union> keys b"
    unfolding p u_merge_dicts_Cons by (rule Cons.IH)
  also have "keys (AList.update k (stored (map_of a k) v) a) = insert k (keys a)"
    by (simp add: keys_def dom_update)
  finally show ?case by (auto simp: p keys_def)
qed

lemma map_of_u_merge_dicts_absent:
  "k \<notin> keys b \<Longrightarrow> map_of (u_merge_dicts a b) k = map_of a k"
proof (induction b arbitrary: a)
  case Nil
  show ?case by simp
next
  case (Cons p b)
  obtain k' v where p: "p = (k', v)" by (cases p)
  from Cons.prems have ne: "k' \<noteq> k" and nb: "k \<notin> keys b"
    by (auto simp: p keys_def)
  have "map_of (u_merge_dicts a (p # b)) k =
          map_of (AList.update k' (stored (map_of a k') v) a) k"
    unfolding p u_merge_dicts_Cons by (rule Cons.IH [OF nb])
  also have "\<dots> = map_of a k"
    using ne by (simp add: update_conv')
  finally show ?case .
qed

lemma map_of_u_merge_dicts_present:
  "distinct_keys b \<Longrightarrow> map_of b k = Some v \<Longrightarrow>
     map_of (u_merge_dicts a b) k = Some (stored (map_of a k) v)"
proof (induction b arbitrary: a)
  case Nil
  then show ?case by simp
next
  case (Cons p b)
  obtain k' v' where p: "p = (k', v')" by (cases p)
  from Cons.prems(1) have db: "distinct_keys b" and fresh: "k' \<notin> keys b"
    by (auto simp: p distinct_keys_def keys_def)
  let ?a' = "AList.update k' (stored (map_of a k') v') a"
  have step: "u_merge_dicts a (p # b) = u_merge_dicts ?a' b"
    unfolding p by (rule u_merge_dicts_Cons)
  show ?case
  proof (cases "k' = k")
    case True
    with Cons.prems(2) have v: "v' = v" by (simp add: p)
    have "map_of (u_merge_dicts ?a' b) k = map_of ?a' k"
      using fresh True by (simp add: map_of_u_merge_dicts_absent)
    then show ?thesis
      using True v by (simp add: step update_conv')
  next
    case False
    with Cons.prems(2) have "map_of b k = Some v" by (simp add: p)
    then have "map_of (u_merge_dicts ?a' b) k = Some (stored (map_of ?a' k) v)"
      by (rule Cons.IH [OF db])
    then show ?thesis
      using False by (simp add: step update_conv')
  qed
qed

lemma merge_dicts_eq: "merge_dicts a b = u_merge_dicts a b"
proof (induction a b rule: u_merge_dicts.induct)
  case (1 merged)
  show ?case by simp
next
  case (2 merged k v items)
  let ?m = "if k \<in> fst ` set merged then
          (case (v, map_of merged k) of
             (PDict ov, Some (PDict bv)) \<Rightarrow>
               AList.update k (PDict (u_merge_dicts bv ov)) merged
           | _ \<Rightarrow> AList.update k v merged)
        else AList.update k v merged"
  have inner: "(if k \<in> fst ` set merged then
          (case (v, map_of merged k) of
             (PDict ov, Some (PDict bv)) \<Rightarrow>
               AList.update k (PDict (merge_dicts bv ov)) merged
           | _ \<Rightarrow> AList.update k v merged)
        else AList.update k v merged) = ?m"
    using "2.IH"(1) by (simp split: pyval.split option.split)
  have "merge_dicts merged ((k, v) # items) = merge_dicts ?m items"
    by (simp only: merge_dicts.simps inner)
  also have "\<dots> = u_merge_dicts ?m items"
    unfolding prod.case by (rule "2.IH"(2))
  finally show ?case by simp
qed

text \<open>
  Claim C1. For mappings \<open>a\<close> and \<open>b\<close> (\<open>b\<close> a dict, so with no key twice), the
  merge of \<open>a\<close> and \<open>b\<close> has exactly the keys of \<open>a\<close> and of \<open>b\<close>. A key only in
  \<open>a\<close> keeps the value of \<open>a\<close>; a key only in \<open>b\<close> gets the value of \<open>b\<close>; a key
  in both gets the merge of the two values when both are nested mappings, and the
  value of \<open>b\<close> in every other case. Both copies of the function
  (\<^verbatim>\<open>_merge_dicts\<close> and \<^verbatim>\<open>merge_dicts\<close>) do so.
\<close>

theorem merge_dicts_keys_and_values:
  assumes "distinct_keys b"
  shows "keys (u_merge_dicts a b) = keys a \<union> keys b
     \<and> (\<forall>k. k \<notin> keys b \<longrightarrow> map_of (u_merge_dicts a b) k = map_of a k)
     \<and> (\<forall>k vb. k \<notin> keys a \<and> map_of b k = Some vb \<longrightarrow>
            map_of (u_merge_dicts a b) k = Some vb)
     \<and> (\<forall>k da db. map_of a k = Some (PDict da) \<and> map_of b k = Some (PDict db) \<longrightarrow>
            map_of (u_merge_dicts a b) k = Some (PDict (u_merge_dicts da db)))
     \<and> (\<forall>k va vb. map_of a k = Some va \<and> map_of b k = Some vb
              \<and> \<not> (isinstance_dict va \<and> isinstance_dict vb) \<longrightarrow>
            map_of (u_merge_dicts a b) k = Some vb)
     \<and> merge_dicts a b = u_merge_dicts a b"
proof (intro conjI allI impI)
  show "keys (u_merge_dicts a b) = keys a \<union> keys b"
    by (rule keys_u_merge_dicts)
next
  fix k assume "k \<notin> keys b"
  then show "map_of (u_merge_dicts a b) k = map_of a k"
    by (rule map_of_u_merge_dicts_absent)
next
  fix k vb assume h: "k \<notin> keys a \<and> map_of b k = Some vb"
  then have "map_of a k = None"
    by (simp add: keys_def map_of_eq_None_iff)
  with h show "map_of (u_merge_dicts a b) k = Some vb"
    using map_of_u_merge_dicts_present [OF assms, of k vb a]
    by (simp add: stored_def split: pyval.split)
next
  fix k da db
  assume "map_of a k = Some (PDict da) \<and> map_of b k = Some (PDict db)"
  then show "map_of (u_merge_dicts a b) k = Some (PDict (u_merge_dicts da db))"
    using map_of_u_merge_dicts_present [OF assms, of k "PDict db" a]
    by (simp add: stored_def)
next
  fix k va vb
  assume h: "map_of a k = Some va \<and> map_of b k = Some vb
               \<and> \<not> (isinstance_dict va \<and> isinstance_dict vb)"
  then have "stored (Some va) vb = vb"
    by (cases va; cases vb) (simp_all add: stored_def)
  with h show "map_of (u_merge_dicts a b) k = Some vb"
    using map_of_u_merge_dicts_present [OF assms, of k vb a] by simp
next
  show "merge_dicts a b = u_merge_dicts a b"
    by (rule merge_dicts_eq)
qed

text \<open>
  The end-to-end example of the specification: the overlay changes one nested
  field, the sibling of that field and the other top-level field stay.
\<close>

theorem merge_dicts_keys_and_values_witness:
  "distinct_keys [(''nested'', PDict [(''b'', PInt 99)]), (''new'', PList [])]
   \<and> map_of
        (u_merge_dicts
           [(''timeout'', PInt 10), (''nested'', PDict [(''a'', PInt 1), (''b'', PInt 2)])]
           [(''nested'', PDict [(''b'', PInt 99)]), (''new'', PList [])])
        ''nested''
      = Some (PDict (u_merge_dicts [(''a'', PInt 1), (''b'', PInt 2)] [(''b'', PInt 99)]))
   \<and> u_merge_dicts
        [(''timeout'', PInt 10), (''nested'', PDict [(''a'', PInt 1), (''b'', PInt 2)])]
        [(''nested'', PDict [(''b'', PInt 99)]), (''new'', PList [])]
      = [(''timeout'', PInt 10), (''nested'', PDict [(''a'', PInt 1), (''b'', PInt 99)]),
         (''new'', PList [])]"
proof -
  have h: "distinct_keys [(''nested'', PDict [(''b'', PInt 99)]), (''new'', PList [])]"
    by (simp add: distinct_keys_def)
  show ?thesis
    using h merge_dicts_keys_and_values [OF h,
      of "[(''timeout'', PInt 10), (''nested'', PDict [(''a'', PInt 1), (''b'', PInt 2)])]"]
    by simp
qed

section \<open>Properties of the overlay paths\<close>

lemma str_split_not_Nil: "str_split sep s \<noteq> []"
  by (induction s) (auto split: list.split)

lemma str_split_append:
  "str_split sep (s @ sep # t) = str_split sep s @ str_split sep t"
  by (induction s) (auto split: list.split simp: str_split_not_Nil)

lemma str_split_no_sep: "sep \<notin> set t \<Longrightarrow> str_split sep t = [t]"
  by (induction t) auto

lemma str_join_snoc:
  "parts \<noteq> [] \<Longrightarrow> str_join sep (parts @ [part]) = str_join sep parts @ sep @ part"
  by (induction sep parts rule: str_join.induct) auto

lemma str_join_split: "str_join [sep] (str_split sep s) = s"
proof (induction s)
  case Nil
  show ?case by simp
next
  case (Cons c s)
  obtain part parts where ps: "str_split sep s = part # parts"
    using str_split_not_Nil [of sep s] by (cases "str_split sep s") auto
  with Cons show ?case by (cases parts) auto
qed

lemma u_new_file_path_inserts:
  assumes "CHR ''.'' \<notin> set ext"
  shows "u_new_file_path (stem @ ''.'' @ ext) v = stem @ ''.'' @ v @ ''.'' @ ext"
proof -
  have parts: "str_split CHR ''.'' (stem @ CHR ''.'' # ext) = str_split CHR ''.'' stem @ [ext]"
    using assms by (simp add: str_split_append str_split_no_sep)
  have "u_new_file_path (stem @ ''.'' @ ext) v =
          str_join ''.'' ((str_split CHR ''.'' stem @ [v]) @ [ext])"
    by (simp add: u_new_file_path_def parts Let_def)
  also have "\<dots> = str_join ''.'' (str_split CHR ''.'' stem @ [v]) @ ''.'' @ ext"
    by (rule str_join_snoc) simp
  also have "str_join ''.'' (str_split CHR ''.'' stem @ [v]) =
               str_join ''.'' (str_split CHR ''.'' stem) @ ''.'' @ v"
    by (rule str_join_snoc) (rule str_split_not_Nil)
  finally show ?thesis by (simp add: str_join_split)
qed

lemma u_add_config_set_files_loop_eq:
  "u_add_config_set_files_loop acc v fs = acc @ map (\<lambda>f. u_new_file_path f v) fs"
  by (induction fs arbitrary: acc) auto

lemma add_config_set_files_loop_eq:
  "add_config_set_files_loop acc v fs = acc @ map (\<lambda>f. u_new_file_path f v) fs"
  by (induction fs arbitrary: acc) (auto simp: new_file_path_def u_new_file_path_def)

lemma add_config_set_files_eq: "add_config_set_files fs v = u_add_config_set_files fs v"
  by (simp add: add_config_set_files_def u_add_config_set_files_def
        add_config_set_files_loop_eq u_add_config_set_files_loop_eq)

lemma split_package_file_path_eq: "split_package_file_path p = u_split_package_file_path p"
  by (simp add: split_package_file_path_def u_split_package_file_path_def)

text \<open>
  Claim C2, as the code has it. The claim puts dots for the slashes of the location
  in the derived overlay path; the per-path computation of
  \<^verbatim>\<open>_add_config_set_files\<close> splits at the dots only, so the derived path of
  \<^verbatim>\<open>a/b.yml\<close> for \<^verbatim>\<open>prod\<close> is \<^verbatim>\<open>a/b.prod.yml\<close>, slash kept.
\<close>

theorem overlay_path_dotted_counterexample:
  "\<not> (u_new_file_path ''a/b.yml'' ''prod'' = ''a.b.prod.yml'')"
  by (simp add: u_new_file_path_def)

text \<open>
  Claim C2, amended. The derived overlay path of \<^verbatim>\<open>a/b.yml\<close> for \<^verbatim>\<open>prod\<close> is
  \<^verbatim>\<open>a/b.prod.yml\<close>: the variant is a new segment right before the extension (for
  every path with a dot and every variant), and the slashes stay. The location is
  re-expressed with dots later, when \<^verbatim>\<open>_split_package_file_path\<close> splits the
  derived path into the package \<^verbatim>\<open>a\<close> and the file name \<^verbatim>\<open>b.prod.yml\<close>.
\<close>

theorem overlay_path_inserts_variant:
  "u_new_file_path ''a/b.yml'' ''prod'' = ''a/b.prod.yml''
   \<and> u_add_config_set_files [''a/b.yml''] ''prod'' = [''a/b.yml'', ''a/b.prod.yml'']
   \<and> u_split_package_file_path ''a/b.prod.yml'' = (''a'', ''b.prod.yml'')
   \<and> (\<forall>stem ext v. CHR ''.'' \<notin> set ext \<longrightarrow>
          u_new_file_path (stem @ ''.'' @ ext) v = stem @ ''.'' @ v @ ''.'' @ ext)"
proof (intro conjI allI impI)
  show "u_new_file_path ''a/b.yml'' ''prod'' = ''a/b.prod.yml''"
    by (simp add: u_new_file_path_def)
  then show "u_add_config_set_files [''a/b.yml''] ''prod'' = [''a/b.yml'', ''a/b.prod.yml'']"
    by (simp add: u_add_config_set_files_def)
  show "u_split_package_file_path ''a/b.prod.yml'' = (''a'', ''b.prod.yml'')"
    by (simp add: u_split_package_file_path_def os_path_split_def str_rstrip_def)
next
  fix stem ext v :: string
  assume "CHR ''.'' \<notin> set ext"
  then show "u_new_file_path (stem @ ''.'' @ ext) v = stem @ ''.'' @ v @ ''.'' @ ext"
    by (rule u_new_file_path_inserts)
qed

theorem overlay_path_inserts_variant_witness:
  "CHR ''.'' \<notin> set ''yml''
   \<and> u_new_file_path (''configs/base.v2'' @ ''.'' @ ''yml'') ''dev''
       = ''configs/base.v2'' @ ''.'' @ ''dev'' @ ''.'' @ ''yml''"
proof -
  have h: "CHR ''.'' \<notin> set ''yml''" by simp
  from overlay_path_inserts_variant
  have "CHR ''.'' \<notin> set ''yml'' \<longrightarrow>
          u_new_file_path (''configs/base.v2'' @ ''.'' @ ''yml'') ''dev''
            = ''configs/base.v2'' @ ''.'' @ ''dev'' @ ''.'' @ ''yml''"
    by blast
  with h show ?thesis by blast
qed

text \<open>
  Claim C3. \<^verbatim>\<open>_add_config_set_files\<close> returns the base paths followed by the
  derived overlay path of each base path, in the order of the base paths: the result
  is twice as long as the input and starts with the input. For the paths
  \<^verbatim>\<open>a.yml\<close>, \<^verbatim>\<open>b.yml\<close> and the variant \<^verbatim>\<open>dev\<close> it is
  \<^verbatim>\<open>a.yml\<close>, \<^verbatim>\<open>b.yml\<close>, \<^verbatim>\<open>a.dev.yml\<close>, \<^verbatim>\<open>b.dev.yml\<close>.
\<close>

theorem add_config_set_files_base_then_overlays:
  "u_add_config_set_files base_paths variant =
     base_paths @ map (\<lambda>p. u_new_file_path p variant) base_paths
   \<and> length (u_add_config_set_files base_paths variant) = 2 * length base_paths
   \<and> take (length base_paths) (u_add_config_set_files base_paths variant) = base_paths
   \<and> u_add_config_set_files [''a.yml'', ''b.yml''] ''dev''
       = [''a.yml'', ''b.yml'', ''a.dev.yml'', ''b.dev.yml'']"
proof -
  have eq: "\<And>ps v. u_add_config_set_files ps v = ps @ map (\<lambda>p. u_new_file_path p v) ps"
    by (simp add: u_add_config_set_files_def u_add_config_set_files_loop_eq)
  have ex: "u_add_config_set_files [''a.yml'', ''b.yml''] ''dev''
              = [''a.yml'', ''b.yml'', ''a.dev.yml'', ''b.dev.yml'']"
    by (simp add: eq u_new_file_path_def)
  have len: "length (u_add_config_set_files base_paths variant) = 2 * length base_paths"
    by (simp add: eq)
  have first: "take (length base_paths) (u_add_config_set_files base_paths variant) = base_paths"
    by (simp add: eq)
  from eq [of base_paths variant] len first ex show ?thesis
    by (intro conjI)
qed

section \<open>Properties of the loader\<close>

lemma load_configs_loop_eq:
  "load_configs_loop resources acc paths = u_load_configs_loop resources acc paths"
  by (induction paths arbitrary: acc)
     (auto simp: split_package_file_path_eq load_yaml_def u_load_yaml_def
           split: prod.split sum.split opened.split)

lemma u_load_configs_loop_ok:
  "(\<forall>p\<in>set paths. \<exists>d. u_load_path resources p = Inr d) \<Longrightarrow>
   u_load_configs_loop resources acc paths =
     Inr (acc @ filter (\<lambda>d. d \<noteq> PNone) (map (\<lambda>p. projr (u_load_path resources p)) paths))"
proof (induction paths arbitrary: acc)
  case Nil
  show ?case by simp
next
  case (Cons p paths)
  from Cons.prems obtain d where d: "u_load_path resources p = Inr d"
    by auto
  from Cons.prems have rest: "(\<forall>p\<in>set paths. \<exists>d. u_load_path resources p = Inr d)"
    by simp
  show ?case
    using d Cons.IH [OF rest]
    by (auto simp: u_load_path_def split: prod.splits)
qed

lemma length_filter_full:
  "length (filter P xs) = length xs \<longleftrightarrow> (\<forall>x\<in>set xs. P x)"
proof (induction xs)
  case Nil
  show ?case by simp
next
  case (Cons x xs)
  have le: "length (filter P xs) \<le> length xs" by (rule length_filter_le)
  show ?case
  proof (cases "P x")
    case True
    with Cons show ?thesis by simp
  next
    case False
    from le have "length (filter P xs) \<noteq> Suc (length xs)" by arith
    with False show ?thesis by simp
  qed
qed

text \<open>
  Claim C4, as the code has it. The claim gives every input path one entry, the empty
  mapping for a file whose parsed content is empty. The loop of \<^verbatim>\<open>_load_configs\<close>
  appends only \<^verbatim>\<open>if config_dict is not None\<close>: a file with no content parses to
  \<^verbatim>\<open>None\<close> and gets no entry, so one such path gives an empty output.
\<close>

theorem load_configs_empty_file_counterexample:
  "u_load_configs sample_resources [''configs/blank.yml''] = Inr []
   \<and> u_load_configs sample_resources [''configs/blank.yml''] \<noteq> Inr [PDict []]
   \<and> length (projr (u_load_configs sample_resources [''configs/blank.yml'']))
       \<noteq> length [''configs/blank.yml'']"
  by (simp add: u_load_configs_def u_load_yaml_def sample_resources_def
        u_split_package_file_path_def os_path_split_def str_rstrip_def)

text \<open>
  Claim C4, amended. When no load raises, the loader returns, in the order of the
  input paths, the loaded value of every path whose parsed content is not
  \<^verbatim>\<open>None\<close>: a path whose file is absent gives the empty mapping (no error), and a
  path whose file parses to \<^verbatim>\<open>None\<close> gives no entry. So the output is never longer
  than the input, and it is as long exactly when no file parses to \<^verbatim>\<open>None\<close>. The
  copy in config_builder.py returns the same.
\<close>

theorem load_configs_skips_empty_files:
  assumes "\<forall>p\<in>set paths. \<exists>d. u_load_path resources p = Inr d"
  shows "u_load_configs resources paths =
           Inr (filter (\<lambda>d. d \<noteq> PNone) (map (\<lambda>p. projr (u_load_path resources p)) paths))
    \<and> length (projr (u_load_configs resources paths)) \<le> length paths
    \<and> (length (projr (u_load_configs resources paths)) = length paths
         \<longleftrightarrow> (\<forall>p\<in>set paths. u_load_path resources p \<noteq> Inr PNone))
    \<and> (\<forall>package_path file_name. resources package_path file_name = FileNotFoundError \<longrightarrow>
          u_load_yaml resources package_path file_name = Inr (PDict []))
    \<and> load_configs resources paths = u_load_configs resources paths"
proof -
  let ?vs = "map (\<lambda>p. projr (u_load_path resources p)) paths"
  let ?ds = "filter (\<lambda>d. d \<noteq> PNone) ?vs"
  have eq: "u_load_configs resources paths = Inr ?ds"
    using u_load_configs_loop_ok [OF assms, of "[]"] by (simp add: u_load_configs_def)
  have len: "length ?ds \<le> length paths"
    using length_filter_le [of "\<lambda>d. d \<noteq> PNone" ?vs] by simp
  have "length ?ds = length ?vs \<longleftrightarrow> (\<forall>d\<in>set ?vs. d \<noteq> PNone)"
    by (rule length_filter_full)
  also have "\<dots> \<longleftrightarrow> (\<forall>p\<in>set paths. u_load_path resources p \<noteq> Inr PNone)"
    using assms by fastforce
  finally have full: "length ?ds = length paths \<longleftrightarrow>
                (\<forall>p\<in>set paths. u_load_path resources p \<noteq> Inr PNone)"
    by simp
  have nf: "\<forall>package_path file_name. resources package_path file_name = FileNotFoundError \<longrightarrow>
          u_load_yaml resources package_path file_name = Inr (PDict [])"
    by (simp add: u_load_yaml_def)
  have dup: "load_configs resources paths = u_load_configs resources paths"
    by (simp add: load_configs_def u_load_configs_def load_configs_loop_eq)
  from len full nf dup show ?thesis unfolding eq by simp
qed

theorem load_configs_skips_empty_files_witness:
  "u_load_path sample_resources ''configs/base.yml''
     = Inr (PDict [(''timeout'', PInt 10),
                   (''nested'', PDict [(''a'', PInt 1), (''b'', PInt 2)])])
   \<and> u_load_path sample_resources ''configs/blank.yml'' = Inr PNone
   \<and> u_load_path sample_resources ''configs/base.dev.yml'' = Inr (PDict [])
   \<and> u_load_configs sample_resources
        [''configs/base.yml'', ''configs/blank.yml'', ''configs/base.dev.yml'']
     = Inr [PDict [(''timeout'', PInt 10),
                   (''nested'', PDict [(''a'', PInt 1), (''b'', PInt 2)])],
            PDict []]"
proof -
  have 1: "u_load_path sample_resources ''configs/base.yml''
     = Inr (PDict [(''timeout'', PInt 10),
                   (''nested'', PDict [(''a'', PInt 1), (''b'', PInt 2)])])"
    by (simp add: u_load_path_def u_load_yaml_def sample_resources_def
          u_split_package_file_path_def os_path_split_def str_rstrip_def)
  have 2: "u_load_path sample_resources ''configs/blank.yml'' = Inr PNone"
    by (simp add: u_load_path_def u_load_yaml_def sample_resources_def
          u_split_package_file_path_def os_path_split_def str_rstrip_def)
  have 3: "u_load_path sample_resources ''configs/base.dev.yml'' = Inr (PDict [])"
    by (simp add: u_load_path_def u_load_yaml_def sample_resources_def
          u_split_package_file_path_def os_path_split_def str_rstrip_def)
  have h: "\<forall>p\<in>set [''configs/base.yml'', ''configs/blank.yml'', ''configs/base.dev.yml''].
             \<exists>d. u_load_path sample_resources p = Inr d"
    using 1 2 3 by simp
  from load_configs_skips_empty_files [OF h] 1 2 3 show ?thesis by simp
qed

section \<open>Properties of the declaration\<close>

text \<open>
  Claim C6, as the code has it. The claim has the retrieval fail for every declared
  value that is not a list of strings. \<^verbatim>\<open>config_files\<close> tests
  \<^verbatim>\<open>isinstance(config_files, list)\<close> and the length, never the entries: a list
  with an entry that is no string is returned as it is.
\<close>

theorem config_files_non_string_entries_counterexample:
  "ChimeraConf_config_files (Default (PList [PInt 1])) = Inr [PInt 1]
   \<and> ChimeraConf_config_files (Default (PList [PInt 1])) \<noteq> Inl DeclarationInvalid"
  by (simp add: ChimeraConf_config_files_def)

text \<open>
  Claim C6, amended. For a class that declares a value, \<^verbatim>\<open>config_files\<close> fails
  with the "invalid" error exactly when the declared value is not a list (the
  entries are not looked at), with the "empty" error exactly when the declared list
  has no entry, and returns the declared list in every other case. What it raises
  for a class with no declaration of its own is left out here: the base class
  annotates \<^verbatim>\<open>_config_files\<close> itself, so the \<^verbatim>\<open>hasattr\<close> test does not tell
  such a class from one that declares a value.
\<close>

theorem config_files_failures:
  "(ChimeraConf_config_files (Default v) = Inl DeclarationInvalid \<longleftrightarrow> \<not> isinstance_list v)
   \<and> (ChimeraConf_config_files (Default v) = Inl DeclarationEmpty \<longleftrightarrow> v = PList [])
   \<and> (ChimeraConf_config_files (Default v) = Inr entries
        \<longleftrightarrow> v = PList entries \<and> entries \<noteq> [])"
proof -
  have ne: "DeclarationInvalid \<noteq> DeclarationEmpty"
    by (simp add: DeclarationInvalid_def DeclarationEmpty_def)
  then show ?thesis
    by (cases v) (auto simp: ChimeraConf_config_files_def)
qed

section \<open>Properties of the resolution call\<close>

lemma str_entries_strs: "str_entries (map PStr files) = Inr files"
  by (induction files) auto

lemma functools_reduce_u_merge_raises:
  "functools_reduce u_merge_dicts_call dicts acc = Inl e \<Longrightarrow> \<exists>msg. e = AttributeError msg"
  by (induction dicts arbitrary: acc)
     (auto simp: u_merge_dicts_call_def no_attribute_def split: sum.splits pyval.splits)

lemma str_entries_raises: "str_entries vs = Inl e \<Longrightarrow> \<exists>msg. e = AttributeError msg"
  by (induction vs) (auto simp: no_attribute_def split: sum.splits pyval.splits)

lemma manifest_override:
  "ChimeraConf_manifest res reg name cls construct form (Some files) =
     (case u_load_configs res (u_add_config_set_files files
             (case form of None \<Rightarrow> chimera_form reg | Some f \<Rightarrow> f)) of
        Inl e \<Rightarrow> Inl (SourceLoadFailure e)
      | Inr config_dicts \<Rightarrow>
          (case u_merge_all_dicts config_dicts of
             Inl e \<Rightarrow> Inl (Raised e)
           | Inr merged_config \<Rightarrow>
               (case construct merged_config of
                  Inl e \<Rightarrow> Inl (ValidationFailure e)
                | Inr obj \<Rightarrow> Inr obj)))"
  by (simp add: ChimeraConf_manifest_def u_add_config_set_files_call_def str_entries_strs)

lemma manifest_declared:
  "ChimeraConf_manifest res reg name cls construct form None =
     (case ChimeraConf_config_files cls of
        Inl e \<Rightarrow> Inl (Raised (ConfigFilesRequired name e))
      | Inr files_to_load \<Rightarrow>
         (case u_add_config_set_files_call files_to_load
                 (case form of None \<Rightarrow> chimera_form reg | Some f \<Rightarrow> f) of
            Inl e \<Rightarrow> Inl (Raised e)
          | Inr all_config_files \<Rightarrow>
             (case u_load_configs res all_config_files of
                Inl e \<Rightarrow> Inl (SourceLoadFailure e)
              | Inr config_dicts \<Rightarrow>
                  (case u_merge_all_dicts config_dicts of
                     Inl e \<Rightarrow> Inl (Raised e)
                   | Inr merged_config \<Rightarrow>
                       (case construct merged_config of
                          Inl e \<Rightarrow> Inl (ValidationFailure e)
                        | Inr obj \<Rightarrow> Inr obj)))))"
  by (simp add: ChimeraConf_manifest_def split: sum.split)

lemma manifest_override_not_required:
  "ChimeraConf_manifest res reg name cls construct form (Some files)
     \<noteq> Inl (Raised (ConfigFilesRequired name' e))"
  unfolding manifest_override
  by (auto simp: u_merge_all_dicts_def ConfigFilesRequired_def
           split: sum.splits dest: functools_reduce_u_merge_raises)

lemma manifest_declared_required:
  assumes "ChimeraConf_manifest res reg name cls construct form None
             = Inl (Raised (ConfigFilesRequired name e))"
  shows "\<exists>e'. ChimeraConf_config_files cls = Inl e'"
proof (cases "ChimeraConf_config_files cls")
  case (Inl e')
  then show ?thesis by blast
next
  case (Inr files_to_load)
  with assms show ?thesis
    unfolding manifest_declared
    by (auto simp: u_merge_all_dicts_def ConfigFilesRequired_def u_add_config_set_files_call_def
             split: sum.splits dest: functools_reduce_u_merge_raises str_entries_raises)
qed

text \<open>
  Claim C7. A call with an override list does not look at the declaration: its
  result is the same for every declaration of the class, and it is never the
  failure that replaces a declaration failure. Without an override list a
  declaration failure is re-raised as that one failure, which names the class; and
  whenever a call ends in that failure, it had no override list and the declaration
  retrieval failed.
\<close>

theorem override_bypasses_declaration:
 "ChimeraConf_manifest res reg name cls construct form (Some files)
    = ChimeraConf_manifest res reg name cls' construct form (Some files)
  \<and> (\<forall>e. ChimeraConf_manifest res reg name cls construct form (Some files)
          \<noteq> Inl (Raised (ConfigFilesRequired name e)))
  \<and> (\<forall>e. ChimeraConf_config_files cls = Inl e \<longrightarrow>
          ChimeraConf_manifest res reg name cls construct form None
            = Inl (Raised (ConfigFilesRequired name e)))
  \<and> (\<forall>ov e. ChimeraConf_manifest res reg name cls construct form ov
              = Inl (Raised (ConfigFilesRequired name e)) \<longrightarrow>
          ov = None \<and> (\<exists>e'. ChimeraConf_config_files cls = Inl e'))"
proof (intro conjI allI impI)
  show "ChimeraConf_manifest res reg name cls construct form (Some files)
    = ChimeraConf_manifest res reg name cls' construct form (Some files)"
    by (simp only: manifest_override)
next
  fix e show "ChimeraConf_manifest res reg name cls construct form (Some files)
          \<noteq> Inl (Raised (ConfigFilesRequired name e))"
    by (rule manifest_override_not_required)
next
  fix e assume "ChimeraConf_config_files cls = Inl e"
  then show "ChimeraConf_manifest res reg name cls construct form None
            = Inl (Raised (ConfigFilesRequired name e))"
    by (simp add: manifest_declared)
next
  fix ov e
  assume h: "ChimeraConf_manifest res reg name cls construct form ov
              = Inl (Raised (ConfigFilesRequired name e))"
  then show "ov = None"
    using manifest_override_not_required [of res reg name cls construct form _ name e]
    by (cases ov) auto
  with h show "\<exists>e'. ChimeraConf_config_files cls = Inl e'"
    by (auto dest: manifest_declared_required)
qed

theorem override_bypasses_declaration_witness:
  "ChimeraConf_manifest sample_resources ChimeraForm_initial ''MyConfig'' NoAttribute
      sample_construct (Some ''prod'') (Some [''configs/base.yml''])
    = Inr [(''timeout'', PInt 10), (''nested'', PDict [(''a'', PInt 1), (''b'', PInt 99)])]
  \<and> ChimeraConf_config_files NoAttribute = Inl DeclarationMissing
  \<and> ChimeraConf_manifest sample_resources ChimeraForm_initial ''MyConfig'' NoAttribute
      sample_construct (Some ''prod'') None
    = Inl (Raised (ConfigFilesRequired ''MyConfig'' DeclarationMissing))"
proof -
  have a: "ChimeraConf_manifest sample_resources ChimeraForm_initial ''MyConfig'' NoAttribute
      sample_construct (Some ''prod'') (Some [''configs/base.yml''])
    = Inr [(''timeout'', PInt 10), (''nested'', PDict [(''a'', PInt 1), (''b'', PInt 99)])]"
    by (simp add: manifest_override u_add_config_set_files_def u_new_file_path_def
         u_load_configs_def u_split_package_file_path_def os_path_split_def str_rstrip_def
         u_load_yaml_def sample_resources_def u_merge_all_dicts_def u_merge_dicts_call_def
         sample_construct_def)
  have b: "ChimeraConf_config_files NoAttribute = Inl DeclarationMissing"
    by (simp add: ChimeraConf_config_files_def)
  from a b override_bypasses_declaration [of sample_resources ChimeraForm_initial "''MyConfig''" NoAttribute
       sample_construct "Some ''prod''" "[''configs/base.yml'']" NoAttribute]
  show ?thesis by blast
qed

text \<open>
  Claim C8. A call with an explicit variant gives the same result for every value of
  the registry, and that variant is the one the overlay paths are derived with,
  for an override list and for the declared list. After \<^verbatim>\<open>set_form(v)\<close> a call
  with no variant is the call with the variant \<open>v\<close>. The registry starts as
  \<^verbatim>\<open>local\<close>, and a set overwrites it whatever it held: the last write wins. On
  the sample package a call with no variant loads the base file alone while the
  registry holds \<^verbatim>\<open>local\<close>, and the \<^verbatim>\<open>prod\<close> overlay over it after
  \<^verbatim>\<open>set_form("prod")\<close>.
\<close>

theorem explicit_variant_ignores_registry:
  "ChimeraConf_manifest res reg name cls construct (Some v) ov
     = ChimeraConf_manifest res reg' name cls construct (Some v) ov
   \<and> ChimeraConf_manifest res (ChimeraForm_set_form reg v) name cls construct None ov
     = ChimeraConf_manifest res reg' name cls construct (Some v) ov
   \<and> ChimeraConf_manifest res reg name cls construct (Some v) (Some files)
     = (case u_load_configs res (u_add_config_set_files files v) of
          Inl e \<Rightarrow> Inl (SourceLoadFailure e)
        | Inr config_dicts \<Rightarrow>
            (case u_merge_all_dicts config_dicts of
               Inl e \<Rightarrow> Inl (Raised e)
             | Inr merged_config \<Rightarrow>
                 (case construct merged_config of
                    Inl e \<Rightarrow> Inl (ValidationFailure e)
                  | Inr obj \<Rightarrow> Inr obj)))
   \<and> ChimeraConf_manifest res reg name cls construct (Some v) None
     = (case ChimeraConf_config_files cls of
          Inl e \<Rightarrow> Inl (Raised (ConfigFilesRequired name e))
        | Inr files_to_load \<Rightarrow>
            (case u_add_config_set_files_call files_to_load v of
               Inl e \<Rightarrow> Inl (Raised e)
             | Inr all_config_files \<Rightarrow>
                 (case u_load_configs res all_config_files of
                    Inl e \<Rightarrow> Inl (SourceLoadFailure e)
                  | Inr config_dicts \<Rightarrow>
                      (case u_merge_all_dicts config_dicts of
                         Inl e \<Rightarrow> Inl (Raised e)
                       | Inr merged_config \<Rightarrow>
                           (case construct merged_config of
                              Inl e \<Rightarrow> Inl (ValidationFailure e)
                            | Inr obj \<Rightarrow> Inr obj)))))
   \<and> chimera_form ChimeraForm_initial = ''local''
   \<and> chimera_form (ChimeraForm_set_form reg v) = v
   \<and> ChimeraForm_set_form (ChimeraForm_set_form reg v) w = ChimeraForm_set_form reg w
   \<and> ChimeraConf_manifest sample_resources ChimeraForm_initial name cls sample_construct
        None (Some [''configs/base.yml''])
     = Inr [(''timeout'', PInt 10), (''nested'', PDict [(''a'', PInt 1), (''b'', PInt 2)])]
   \<and> ChimeraConf_manifest sample_resources (ChimeraForm_set_form ChimeraForm_initial ''prod'')
        name cls sample_construct None (Some [''configs/base.yml''])
     = Inr [(''timeout'', PInt 10), (''nested'', PDict [(''a'', PInt 1), (''b'', PInt 99)])]"
proof -
  have 1: "ChimeraConf_manifest res reg name cls construct (Some v) ov
     = ChimeraConf_manifest res reg' name cls construct (Some v) ov"
    by (simp add: ChimeraConf_manifest_def)
  have 2: "ChimeraConf_manifest res (ChimeraForm_set_form reg v) name cls construct None ov
     = ChimeraConf_manifest res reg' name cls construct (Some v) ov"
    by (simp add: ChimeraConf_manifest_def ChimeraForm_set_form_def)
  note 3 = manifest_override [of res reg name cls construct "Some v" files, simplified]
  have 4: "ChimeraConf_manifest res reg name cls construct (Some v) None
     = (case ChimeraConf_config_files cls of
          Inl e \<Rightarrow> Inl (Raised (ConfigFilesRequired name e))
        | Inr files_to_load \<Rightarrow>
            (case u_add_config_set_files_call files_to_load v of
               Inl e \<Rightarrow> Inl (Raised e)
             | Inr all_config_files \<Rightarrow>
                 (case u_load_configs res all_config_files of
                    Inl e \<Rightarrow> Inl (SourceLoadFailure e)
                  | Inr config_dicts \<Rightarrow>
                      (case u_merge_all_dicts config_dicts of
                         Inl e \<Rightarrow> Inl (Raised e)
                       | Inr merged_config \<Rightarrow>
                           (case construct merged_config of
                              Inl e \<Rightarrow> Inl (ValidationFailure e)
                            | Inr obj \<Rightarrow> Inr obj)))))"
    unfolding manifest_declared option.case by (rule refl)
  have 5: "chimera_form ChimeraForm_initial = ''local''"
    "chimera_form (ChimeraForm_set_form reg v) = v"
    "ChimeraForm_set_form (ChimeraForm_set_form reg v) w = ChimeraForm_set_form reg w"
    by (simp_all add: ChimeraForm_set_form_def ChimeraForm_initial_def)
  have 6: "ChimeraConf_manifest sample_resources ChimeraForm_initial name cls sample_construct
        None (Some [''configs/base.yml''])
     = Inr [(''timeout'', PInt 10), (''nested'', PDict [(''a'', PInt 1), (''b'', PInt 2)])]"
    by (simp add: manifest_override ChimeraForm_initial_def
         u_add_config_set_files_def u_new_file_path_def
         u_load_configs_def u_split_package_file_path_def os_path_split_def str_rstrip_def
         u_load_yaml_def sample_resources_def u_merge_all_dicts_def u_merge_dicts_call_def
         sample_construct_def)
  have 7: "ChimeraConf_manifest sample_resources (ChimeraForm_set_form ChimeraForm_initial ''prod'')
        name cls sample_construct None (Some [''configs/base.yml''])
     = Inr [(''timeout'', PInt 10), (''nested'', PDict [(''a'', PInt 1), (''b'', PInt 99)])]"
    by (simp add: manifest_override ChimeraForm_initial_def ChimeraForm_set_form_def
         u_add_config_set_files_def u_new_file_path_def
         u_load_configs_def u_split_package_file_path_def os_path_split_def str_rstrip_def
         u_load_yaml_def sample_resources_def u_merge_all_dicts_def u_merge_dicts_call_def
         sample_construct_def)
  from 1 2 3 4 5 6 7 show ?thesis by (intro conjI)
qed

text \<open>
  On the sample package: setting the form changes what a call with no variant
  returns, and changes nothing for a call with the explicit variant \<^verbatim>\<open>dev\<close>.
\<close>

theorem explicit_variant_ignores_registry_witness:
  "ChimeraConf_manifest sample_resources (ChimeraForm_set_form ChimeraForm_initial ''prod'')
        ''MyConfig'' NoAttribute sample_construct None (Some [''configs/base.yml''])
     = Inr [(''timeout'', PInt 10), (''nested'', PDict [(''a'', PInt 1), (''b'', PInt 99)])]
   \<and> ChimeraConf_manifest sample_resources ChimeraForm_initial
        ''MyConfig'' NoAttribute sample_construct None (Some [''configs/base.yml''])
     = Inr [(''timeout'', PInt 10), (''nested'', PDict [(''a'', PInt 1), (''b'', PInt 2)])]
   \<and> ChimeraConf_manifest sample_resources (ChimeraForm_set_form ChimeraForm_initial ''prod'')
        ''MyConfig'' NoAttribute sample_construct (Some ''dev'') (Some [''configs/base.yml''])
     = ChimeraConf_manifest sample_resources ChimeraForm_initial
        ''MyConfig'' NoAttribute sample_construct (Some ''dev'') (Some [''configs/base.yml''])
   \<and> ChimeraConf_manifest sample_resources (ChimeraForm_set_form ChimeraForm_initial ''prod'')
        ''MyConfig'' NoAttribute sample_construct None (Some [''configs/base.yml''])
     \<noteq> ChimeraConf_manifest sample_resources ChimeraForm_initial
        ''MyConfig'' NoAttribute sample_construct None (Some [''configs/base.yml''])"
proof -
  note t = explicit_variant_ignores_registry [of sample_resources "ChimeraForm_set_form ChimeraForm_initial ''prod''"
              "''MyConfig''" NoAttribute sample_construct "''dev''"
              "Some [''configs/base.yml'']" ChimeraForm_initial
              "[''configs/base.yml'']" "''local''"]
  from t have prod: "ChimeraConf_manifest sample_resources
        (ChimeraForm_set_form ChimeraForm_initial ''prod'')
        ''MyConfig'' NoAttribute sample_construct None (Some [''configs/base.yml''])
     = Inr [(''timeout'', PInt 10), (''nested'', PDict [(''a'', PInt 1), (''b'', PInt 99)])]"
    by blast
  from t have local: "ChimeraConf_manifest sample_resources ChimeraForm_initial
        ''MyConfig'' NoAttribute sample_construct None (Some [''configs/base.yml''])
     = Inr [(''timeout'', PInt 10), (''nested'', PDict [(''a'', PInt 1), (''b'', PInt 2)])]"
    by blast
  from t have dev: "ChimeraConf_manifest sample_resources
        (ChimeraForm_set_form ChimeraForm_initial ''prod'')
        ''MyConfig'' NoAttribute sample_construct (Some ''dev'') (Some [''configs/base.yml''])
     = ChimeraConf_manifest sample_resources ChimeraForm_initial
        ''MyConfig'' NoAttribute sample_construct (Some ''dev'') (Some [''configs/base.yml''])"
    by blast
  from prod local dev show ?thesis by simp
qed


section \<open>The second copy of the pipeline\<close>

lemma merge_dicts_call_eq: "merge_dicts_call = u_merge_dicts_call"
  by (simp add: fun_eq_iff merge_dicts_call_def u_merge_dicts_call_def merge_dicts_eq
        split: pyval.split)

text \<open>
  Claim C10. The functions of config_builder.py equal those of utilities.py and
  chimera_conf.py on all inputs, and \<^verbatim>\<open>ConfigBuilder.load_config\<close> returns what
  \<^verbatim>\<open>ChimeraConf.manifest\<close> returns when the two registries hold the same
  variant; both registries start as \<^verbatim>\<open>local\<close>.
\<close>

theorem config_builder_pipeline_equal:
  "merge_dicts = u_merge_dicts
   \<and> add_config_set_files = u_add_config_set_files
   \<and> split_package_file_path = u_split_package_file_path
   \<and> load_yaml res = u_load_yaml res
   \<and> load_configs res = u_load_configs res
   \<and> merge_all_dicts = u_merge_all_dicts
   \<and> ConfigBuilder_config_files = ChimeraConf_config_files
   \<and> ConfigBuilder_load_config res \<lparr>config_set = active\<rparr> name cls construct arg ov
       = ChimeraConf_manifest res \<lparr>chimera_form = active\<rparr> name cls construct arg ov
   \<and> config_set ConfigSet_initial = ''local''
   \<and> chimera_form ChimeraForm_initial = ''local''"
proof -
  have 1: "merge_dicts = u_merge_dicts" by (simp add: fun_eq_iff merge_dicts_eq)
  have 2: "add_config_set_files = u_add_config_set_files"
    by (simp add: fun_eq_iff add_config_set_files_eq)
  have 3: "split_package_file_path = u_split_package_file_path"
    by (simp add: fun_eq_iff split_package_file_path_eq)
  have 4: "load_yaml res = u_load_yaml res"
    by (simp add: fun_eq_iff load_yaml_def u_load_yaml_def)
  have 5: "load_configs res = u_load_configs res"
    by (simp add: fun_eq_iff load_configs_def u_load_configs_def load_configs_loop_eq)
  have 6: "merge_all_dicts = u_merge_all_dicts"
    by (simp add: fun_eq_iff merge_all_dicts_def u_merge_all_dicts_def merge_dicts_call_eq)
  have 7: "ConfigBuilder_config_files = ChimeraConf_config_files"
    by (simp add: fun_eq_iff ConfigBuilder_config_files_def ChimeraConf_config_files_def)
  have sel: "config_set \<lparr>config_set = active\<rparr> = active"
    "chimera_form \<lparr>chimera_form = active\<rparr> = active"
    by simp_all
  have 8: "ConfigBuilder_load_config res \<lparr>config_set = active\<rparr> name cls construct arg ov
       = ChimeraConf_manifest res \<lparr>chimera_form = active\<rparr> name cls construct arg ov"
    unfolding ConfigBuilder_load_config_def ChimeraConf_manifest_def 5 6 7
      add_config_set_files_call_def u_add_config_set_files_call_def 2 sel
    by (rule refl)
  have 9: "config_set ConfigSet_initial = ''local''" "chimera_form ChimeraForm_initial = ''local''"
    by (simp_all add: ConfigSet_initial_def ChimeraForm_initial_def)
  from 1 2 3 4 5 6 7 8 9 show ?thesis by (intro conjI)
qed


section \<open>Precedence in the fold\<close>

lemma unique_keys_value:
  "unique_keys (PDict d) \<Longrightarrow> map_of d k = Some v \<Longrightarrow> unique_keys v"
  by (auto dest!: map_of_SomeD simp: rev_image_eqI)

lemma at_path_merge:
  "unique_keys (PDict b) \<Longrightarrow> p \<noteq> [] \<Longrightarrow> at_path (PDict b) p = Some v \<Longrightarrow>
     at_path (PDict (u_merge_dicts a b)) p = Some (stored (at_path (PDict a) p) v)"
proof (induction p arbitrary: a b)
  case Nil
  then show ?case by simp
next
  case (Cons k ks)
  from Cons.prems(3) obtain vb where vb: "map_of b k = Some vb" and rest: "at_path vb ks = Some v"
    by (auto split: option.splits)
  from Cons.prems(1) have db: "distinct_keys b" by (simp add: distinct_keys_def)
  have look: "map_of (u_merge_dicts a b) k = Some (stored (map_of a k) vb)"
    using db vb by (rule map_of_u_merge_dicts_present)
  show ?case
  proof (cases ks)
    case Nil
    with rest have "v = vb" by simp
    moreover have "at_path (PDict a) [k] = map_of a k"
      by (simp split: option.split)
    ultimately show ?thesis using look Nil by simp
  next
    case (Cons k' ks')
    with rest obtain ov where ov: "vb = PDict ov" by (cases vb) auto
    show ?thesis
    proof (cases "\<exists>bv. map_of a k = Some (PDict bv)")
      case True
      then obtain bv where bv: "map_of a k = Some (PDict bv)" by blast
      have "unique_keys (PDict ov)"
        using Cons.prems(1) vb unfolding ov by (rule unique_keys_value)
      moreover have "ks \<noteq> []" using Cons by simp
      moreover have "at_path (PDict ov) ks = Some v" using rest by (simp add: ov)
      ultimately have "at_path (PDict (u_merge_dicts bv ov)) ks
                         = Some (stored (at_path (PDict bv) ks) v)"
        by (rule Cons.IH)
      with look bv ov show ?thesis by (simp add: stored_def)
    next
      case False
      then have st: "stored (map_of a k) vb = vb"
        by (auto simp: stored_def split: pyval.splits option.splits)
      from False Cons have "at_path (PDict a) (k # ks) = None"
        by (auto split: option.splits pyval.splits)
      then have "stored (at_path (PDict a) (k # ks)) v = v"
        by (simp add: stored_def split: pyval.splits)
      with look st rest show ?thesis by simp
    qed
  qed
qed

lemma at_path_merge_leaves_alone:
  "unique_keys (PDict x) \<Longrightarrow> at_path (PDict a) p = Some v \<Longrightarrow>
     leaves_alone (PDict x) p \<Longrightarrow> at_path (PDict (u_merge_dicts a x)) p = Some v"
proof (induction p arbitrary: a x)
  case Nil
  then show ?case by simp
next
  case (Cons k ks)
  from Cons.prems(2) obtain va where va: "map_of a k = Some va" and rest: "at_path va ks = Some v"
    by (auto split: option.splits)
  from Cons.prems(1) have dx: "distinct_keys x" by (simp add: distinct_keys_def)
  show ?case
  proof (cases "map_of x k")
    case None
    then have "k \<notin> keys x" by (simp add: keys_def map_of_eq_None_iff)
    then have "map_of (u_merge_dicts a x) k = map_of a k"
      by (rule map_of_u_merge_dicts_absent)
    with va rest show ?thesis by simp
  next
    case (Some vx)
    with Cons.prems(3) have la: "leaves_alone vx ks" by simp
    then obtain k' ks' where ks: "ks = k' # ks'" by (cases ks) auto
    with la obtain dx' where vx: "vx = PDict dx'" by (cases vx) auto
    from rest ks obtain da where da: "va = PDict da" by (cases va) auto
    have look: "map_of (u_merge_dicts a x) k = Some (PDict (u_merge_dicts da dx'))"
      using map_of_u_merge_dicts_present [OF dx Some, of a]
      by (simp add: stored_def va da vx)
    have "unique_keys (PDict dx')"
      using Cons.prems(1) Some unfolding vx by (rule unique_keys_value)
    moreover have "at_path (PDict da) ks = Some v" using rest by (simp add: da)
    moreover have "leaves_alone (PDict dx') ks" using la by (simp add: vx)
    ultimately have "at_path (PDict (u_merge_dicts da dx')) ks = Some v"
      by (rule Cons.IH)
    with look show ?thesis by simp
  qed
qed

lemma functools_reduce_dicts:
  "functools_reduce u_merge_dicts_call (map PDict ds) acc = Inr (foldl u_merge_dicts acc ds)"
  by (induction ds arbitrary: acc) (simp_all add: u_merge_dicts_call_def)

lemma foldl_leaves_alone:
  "\<forall>x\<in>set post. unique_keys (PDict x) \<and> leaves_alone (PDict x) p \<Longrightarrow>
   at_path (PDict acc) p = Some v \<Longrightarrow>
   at_path (PDict (foldl u_merge_dicts acc post)) p = Some v"
proof (induction post arbitrary: acc)
  case Nil
  then show ?case by simp
next
  case (Cons x post)
  from Cons.prems have "at_path (PDict (u_merge_dicts acc x)) p = Some v"
    by (simp add: at_path_merge_leaves_alone)
  with Cons.IH [of "u_merge_dicts acc x"] Cons.prems show ?case by simp
qed

text \<open>
  Claim C5, as the code has it. The claim gives a field that the first mapping sets
  and the third overrides the value of the third, whatever the second holds. When
  the value of the third is a mapping, \<^verbatim>\<open>_merge_dicts\<close> merges it into the
  mapping the fold holds there: with \<^verbatim>\<open>{f: 5}\<close>, \<^verbatim>\<open>{f: {y: 2}}\<close>,
  \<^verbatim>\<open>{f: {x: 1}}\<close> the field ends as \<^verbatim>\<open>{y: 2, x: 1}\<close>, which is not the value of
  the third, and with \<^verbatim>\<open>{f: 7}\<close> as the second it ends as \<^verbatim>\<open>{x: 1}\<close>.
\<close>

theorem later_mapping_value_counterexample:
  "u_merge_all_dicts
     [PDict [(''f'', PInt 5)], PDict [(''f'', PDict [(''y'', PInt 2)])],
      PDict [(''f'', PDict [(''x'', PInt 1)])]]
     = Inr [(''f'', PDict [(''y'', PInt 2), (''x'', PInt 1)])]
   \<and> u_merge_all_dicts
     [PDict [(''f'', PInt 5)], PDict [(''f'', PInt 7)],
      PDict [(''f'', PDict [(''x'', PInt 1)])]]
     = Inr [(''f'', PDict [(''x'', PInt 1)])]
   \<and> PDict [(''y'', PInt 2), (''x'', PInt 1)] \<noteq> PDict [(''x'', PInt 1)]"
  by (simp add: u_merge_all_dicts_def u_merge_dicts_call_def)

text \<open>
  Claim C5, amended. In the left-to-right fold of a list of mappings by
  \<^verbatim>\<open>_merge_all_dicts\<close>, a later entry has precedence, at every depth. When a
  mapping of the list sets a field (a path of keys) and the mappings after it leave
  that field alone, then: if the value it sets is not a mapping, the fold holds that
  value at the field, whatever the mappings before it hold there (so a field set in
  the first and overridden so in the third of three mappings ends with the value of
  the third, whatever the second holds); if the value it sets is a mapping, the fold
  holds there the merge of that mapping into the mapping the earlier entries left at
  the field, and that mapping itself when they left no mapping there.
\<close>

theorem later_mapping_wins:
  assumes "unique_keys (PDict m)"
    and "at_path (PDict m) p = Some v" and "p \<noteq> []"
    and "\<forall>x\<in>set later. unique_keys (PDict x) \<and> leaves_alone (PDict x) p"
  shows "\<exists>before r.
           u_merge_all_dicts (map PDict earlier) = Inr before
         \<and> u_merge_all_dicts (map PDict (earlier @ m # later)) = Inr r
         \<and> (\<not> isinstance_dict v \<longrightarrow> at_path (PDict r) p = Some v)
         \<and> (\<forall>dv. v = PDict dv \<longrightarrow>
               at_path (PDict r) p =
                 Some (case at_path (PDict before) p of
                         Some (PDict da) \<Rightarrow> PDict (u_merge_dicts da dv)
                       | _ \<Rightarrow> v))"
proof -
  let ?before = "foldl u_merge_dicts [] earlier"
  let ?r = "foldl u_merge_dicts (u_merge_dicts ?before m) later"
  have "at_path (PDict (u_merge_dicts ?before m)) p = Some (stored (at_path (PDict ?before) p) v)"
    using assms(1,3,2) by (rule at_path_merge)
  with assms(4) have at: "at_path (PDict ?r) p = Some (stored (at_path (PDict ?before) p) v)"
    by (rule foldl_leaves_alone)
  have leaf: "\<not> isinstance_dict v \<longrightarrow> at_path (PDict ?r) p = Some v"
    using at by (cases v) (simp_all add: stored_def)
  have nested: "\<forall>dv. v = PDict dv \<longrightarrow>
               at_path (PDict ?r) p =
                 Some (case at_path (PDict ?before) p of
                         Some (PDict da) \<Rightarrow> PDict (u_merge_dicts da dv)
                       | _ \<Rightarrow> v)"
    using at by (auto simp: stored_def split: option.splits pyval.splits)
  have 1: "u_merge_all_dicts (map PDict earlier) = Inr ?before"
    unfolding u_merge_all_dicts_def functools_reduce_dicts by simp
  have 2: "u_merge_all_dicts (map PDict (earlier @ m # later)) = Inr ?r"
    unfolding u_merge_all_dicts_def functools_reduce_dicts by simp
  from 1 2 leaf nested show ?thesis by blast
qed


theorem later_mapping_wins_witness:
  "unique_keys (PDict [(''nested'', PDict [(''b'', PInt 99)])])
   \<and> at_path (PDict [(''nested'', PDict [(''b'', PInt 99)])]) [''nested'', ''b''] = Some (PInt 99)
   \<and> [''nested'', ''b''] \<noteq> []
   \<and> unique_keys (PDict [(''timeout'', PInt 30)])
   \<and> leaves_alone (PDict [(''timeout'', PInt 30)]) [''nested'', ''b'']
   \<and> (\<exists>r. u_merge_all_dicts
              (map PDict
                 ([[(''timeout'', PInt 10), (''nested'', PDict [(''a'', PInt 1), (''b'', PInt 2)])],
                   [(''nested'', PDict [(''b'', PInt 5), (''c'', PList [])])]]
                  @ [(''nested'', PDict [(''b'', PInt 99)])]
                  # [[(''timeout'', PInt 30)]]))
            = Inr r
          \<and> at_path (PDict r) [''nested'', ''b''] = Some (PInt 99))
   \<and> (\<exists>r. u_merge_all_dicts
              (map PDict
                 ([[(''f'', PInt 5)], [(''f'', PDict [(''y'', PInt 2)])]]
                  @ [(''f'', PDict [(''x'', PInt 1)])] # []))
            = Inr r
          \<and> at_path (PDict r) [''f'']
              = Some (PDict (u_merge_dicts [(''y'', PInt 2)] [(''x'', PInt 1)])))"
proof -
  have 1: "unique_keys (PDict [(''nested'', PDict [(''b'', PInt 99)])])" by simp
  have 2: "at_path (PDict [(''nested'', PDict [(''b'', PInt 99)])]) [''nested'', ''b'']
             = Some (PInt 99)" by simp
  have 3: "[''nested'', ''b''] \<noteq> []" by simp
  have 4: "\<forall>x\<in>set [[(''timeout'', PInt 30)]].
             unique_keys (PDict x) \<and> leaves_alone (PDict x) [''nested'', ''b'']" by simp
  from later_mapping_wins [OF 1 2 3 4, where earlier =
      "[[(''timeout'', PInt 10), (''nested'', PDict [(''a'', PInt 1), (''b'', PInt 2)])],
        [(''nested'', PDict [(''b'', PInt 5), (''c'', PList [])])]]"]
  have leaf: "\<exists>r. u_merge_all_dicts
              (map PDict
                 ([[(''timeout'', PInt 10), (''nested'', PDict [(''a'', PInt 1), (''b'', PInt 2)])],
                   [(''nested'', PDict [(''b'', PInt 5), (''c'', PList [])])]]
                  @ [(''nested'', PDict [(''b'', PInt 99)])]
                  # [[(''timeout'', PInt 30)]]))
            = Inr r
          \<and> at_path (PDict r) [''nested'', ''b''] = Some (PInt 99)"
    by auto
  have 5: "unique_keys (PDict [(''f'', PDict [(''x'', PInt 1)])])" by simp
  have 6: "at_path (PDict [(''f'', PDict [(''x'', PInt 1)])]) [''f'']
             = Some (PDict [(''x'', PInt 1)])" by simp
  have 7: "[''f''] \<noteq> []" by simp
  have 8: "\<forall>x\<in>set []. unique_keys (PDict x) \<and> leaves_alone (PDict x) [''f'']" by simp
  have before: "u_merge_all_dicts (map PDict [[(''f'', PInt 5)], [(''f'', PDict [(''y'', PInt 2)])]])
                  = Inr [(''f'', PDict [(''y'', PInt 2)])]"
    by (simp add: u_merge_all_dicts_def u_merge_dicts_call_def)
  from later_mapping_wins [OF 5 6 7 8, where earlier =
      "[[(''f'', PInt 5)], [(''f'', PDict [(''y'', PInt 2)])]]"]
  obtain b r where b: "u_merge_all_dicts
                         (map PDict [[(''f'', PInt 5)], [(''f'', PDict [(''y'', PInt 2)])]]) = Inr b"
    and r: "u_merge_all_dicts
              (map PDict
                 ([[(''f'', PInt 5)], [(''f'', PDict [(''y'', PInt 2)])]]
                  @ [(''f'', PDict [(''x'', PInt 1)])] # [])) = Inr r"
    and at: "at_path (PDict r) [''f''] =
               Some (case at_path (PDict b) [''f''] of
                       Some (PDict da) \<Rightarrow> PDict (u_merge_dicts da [(''x'', PInt 1)])
                     | _ \<Rightarrow> PDict [(''x'', PInt 1)])"
    by blast
  from b before have "b = [(''f'', PDict [(''y'', PInt 2)])]" by simp
  with at have "at_path (PDict r) [''f'']
                  = Some (PDict (u_merge_dicts [(''y'', PInt 2)] [(''x'', PInt 1)]))"
    by simp
  with r have nested: "\<exists>r. u_merge_all_dicts
              (map PDict
                 ([[(''f'', PInt 5)], [(''f'', PDict [(''y'', PInt 2)])]]
                  @ [(''f'', PDict [(''x'', PInt 1)])] # []))
            = Inr r
          \<and> at_path (PDict r) [''f'']
              = Some (PDict (u_merge_dicts [(''y'', PInt 2)] [(''x'', PInt 1)]))"
    by blast
  from 1 2 3 4 leaf nested show ?thesis by simp
qed

section \<open>The merger writes to new objects only\<close>

lemma h_merge_frame:
  "(\<forall>h base overlay h' r.
      h_merge_dicts fuel h base overlay = Some (h', r) \<longrightarrow>
        length h \<le> r \<and> r < length h' \<and> (\<forall>a<length h. h' ! a = h ! a))
   \<and> (\<forall>h merged overlay i h' r.
      h_merge_loop fuel h merged overlay i = Some (h', r) \<longrightarrow> merged < length h \<longrightarrow>
        r = merged \<and> length h \<le> length h' \<and> (\<forall>a<length h. a \<noteq> merged \<longrightarrow> h' ! a = h ! a))"
proof (induction fuel)
  case 0
  show ?case by (auto split: if_splits)
next
  case (Suc fuel)
  from Suc have IH1: "\<And>h base overlay h' r.
      h_merge_dicts fuel h base overlay = Some (h', r) \<Longrightarrow>
        length h \<le> r \<and> r < length h' \<and> (\<forall>a<length h. h' ! a = h ! a)"
    by blast
  from Suc have IH2: "\<And>h merged overlay i h' r.
      h_merge_loop fuel h merged overlay i = Some (h', r) \<Longrightarrow> merged < length h \<Longrightarrow>
        r = merged \<and> length h \<le> length h' \<and> (\<forall>a<length h. a \<noteq> merged \<longrightarrow> h' ! a = h ! a)"
    by blast
  have step: "\<And>h merged d overlay i h' r.
      h_merge_loop fuel (h[merged := d]) merged overlay i = Some (h', r) \<Longrightarrow> merged < length h \<Longrightarrow>
        r = merged \<and> length h \<le> length h' \<and> (\<forall>a<length h. a \<noteq> merged \<longrightarrow> h' ! a = h ! a)"
  proof -
    fix h :: heap and merged d overlay i h' r
    assume run: "h_merge_loop fuel (h[merged := d]) merged overlay i = Some (h', r)"
      and m: "merged < length h"
    from IH2 [OF run] m
    have "r = merged \<and> length (h[merged := d]) \<le> length h'
            \<and> (\<forall>a<length (h[merged := d]). a \<noteq> merged \<longrightarrow> h' ! a = (h[merged := d]) ! a)"
      by simp
    then show "r = merged \<and> length h \<le> length h' \<and> (\<forall>a<length h. a \<noteq> merged \<longrightarrow> h' ! a = h ! a)"
      by simp
  qed
  have P1: "\<forall>h base overlay h' r.
      h_merge_dicts (Suc fuel) h base overlay = Some (h', r) \<longrightarrow>
        length h \<le> r \<and> r < length h' \<and> (\<forall>a<length h. h' ! a = h ! a)"
  proof (intro allI impI)
    fix h :: heap and base overlay h' r
    assume run: "h_merge_dicts (Suc fuel) h base overlay = Some (h', r)"
    then have loop: "h_merge_loop fuel (h @ [h ! base]) (length h) overlay 0 = Some (h', r)"
      by (simp split: if_splits)
    from IH2 [OF loop]
    have r: "r = length h" and len: "Suc (length h) \<le> length h'"
      and old: "\<forall>a<Suc (length h). a \<noteq> length h \<longrightarrow> h' ! a = (h @ [h ! base]) ! a"
      by simp_all
    from old have "\<forall>a<length h. h' ! a = h ! a"
      by (simp add: nth_append)
    with r len show "length h \<le> r \<and> r < length h' \<and> (\<forall>a<length h. h' ! a = h ! a)"
      by simp
  qed
  have P2: "\<forall>h merged overlay i h' r.
      h_merge_loop (Suc fuel) h merged overlay i = Some (h', r) \<longrightarrow> merged < length h \<longrightarrow>
        r = merged \<and> length h \<le> length h' \<and> (\<forall>a<length h. a \<noteq> merged \<longrightarrow> h' ! a = h ! a)"
  proof (intro allI impI)
    fix h :: heap and merged overlay i h' r
    assume run: "h_merge_loop (Suc fuel) h merged overlay i = Some (h', r)"
      and m: "merged < length h"
    let ?goal = "r = merged \<and> length h \<le> length h'
                   \<and> (\<forall>a<length h. a \<noteq> merged \<longrightarrow> h' ! a = h ! a)"
    show ?goal
    proof (cases "i < length (h ! overlay)")
      case False
      with run show ?thesis by simp
    next
      case True
      obtain k v where kv: "(h ! overlay) ! i = (k, v)" by (cases "(h ! overlay) ! i")
      show ?thesis
      proof (cases "\<exists>ov bv. v = HRef ov \<and> map_of (h ! merged) k = Some (HRef bv)")
        case False
        with run True kv
        have "h_merge_loop fuel (h[merged := AList.update k v (h ! merged)]) merged overlay (Suc i)
                = Some (h', r)"
          by (auto split: if_splits hval.splits option.splits)
        then show ?thesis using m by (rule step)
      next
        case yes: True
        then obtain ov bv where v: "v = HRef ov" and b: "map_of (h ! merged) k = Some (HRef bv)"
          by blast
        from b have kin: "k \<in> fst ` set (h ! merged)"
          by (metis domI dom_map_of_conv_image_fst)
        from run True kv v b kin obtain h1 r1 where
          rec: "h_merge_dicts fuel h bv ov = Some (h1, r1)" and
          loop: "h_merge_loop fuel (h1[merged := AList.update k (HRef r1) (h1 ! merged)])
                   merged overlay (Suc i) = Some (h', r)"
          by (auto split: option.splits)
        from IH1 [OF rec] have len1: "length h \<le> length h1" and old1: "\<forall>a<length h. h1 ! a = h ! a"
          by simp_all
        from m len1 have m1: "merged < length h1" by simp
        from step [OF loop m1]
        have r: "r = merged" and len2: "length h1 \<le> length h'"
          and old2: "\<forall>a<length h1. a \<noteq> merged \<longrightarrow> h' ! a = h1 ! a"
          by simp_all
        from len1 old1 old2 have "\<forall>a<length h. a \<noteq> merged \<longrightarrow> h' ! a = h ! a"
          by simp
        with r len1 len2 show ?thesis by simp
      qed
    qed
  qed
  from P1 P2 show ?case by blast
qed


lemma those_map_mono:
  "those (map f xs) = Some ys \<Longrightarrow> (\<And>x y. x \<in> set xs \<Longrightarrow> f x = Some y \<Longrightarrow> g x = Some y) \<Longrightarrow>
     those (map g xs) = Some ys"
proof (induction xs arbitrary: ys)
  case Nil
  then show ?case by simp
next
  case (Cons x xs)
  from Cons.prems(1) obtain y ys' where y: "f x = Some y"
    and ys': "those (map f xs) = Some ys'" and ys: "ys = y # ys'"
    by (auto split: option.splits)
  from y have "g x = Some y" by (simp add: Cons.prems(2))
  moreover from ys' have "those (map g xs) = Some ys'"
    by (rule Cons.IH) (simp add: Cons.prems(2))
  ultimately show ?case by (simp add: ys)
qed

lemma h_value_preserved:
  assumes len: "length h \<le> length h'" and old: "\<forall>a<length h. h' ! a = h ! a"
  shows "h_value n h v = Some x \<Longrightarrow> h_value n h' v = Some x"
proof (induction n arbitrary: v x)
  case 0
  then show ?case by simp
next
  case (Suc n)
  show ?case
  proof (cases v)
    case (HList vs)
    with Suc.prems obtain ys where ys: "those (map (h_value n h) vs) = Some ys" and x: "x = PList ys"
      by auto
    from ys have "those (map (h_value n h') vs) = Some ys"
      by (rule those_map_mono) (rule Suc.IH)
    with HList x show ?thesis by simp
  next
    case (HRef a)
    with Suc.prems have a: "a < length h" by (simp split: if_splits)
    with Suc.prems HRef obtain ys where
      ys: "those (map (\<lambda>(k, x). map_option (Pair k) (h_value n h x)) (h ! a)) = Some ys"
      and x: "x = PDict ys"
      by auto
    from ys have "those (map (\<lambda>(k, x). map_option (Pair k) (h_value n h' x)) (h ! a)) = Some ys"
      by (rule those_map_mono) (auto dest: Suc.IH)
    moreover from a old have "h' ! a = h ! a" by simp
    moreover from a len have "a < length h'" by simp
    ultimately show ?thesis using HRef x by simp
  qed (use Suc.prems in auto)
qed

section \<open>The merger on the store and the merger on values\<close>

lemma h_value_avoiding_empty: "h_value_avoiding {} n h v = h_value n h v"
proof (induction n arbitrary: v)
  case 0
  show ?case by simp
next
  case (Suc n)
  then have "h_value_avoiding {} n h = h_value n h" by (simp add: fun_eq_iff)
  then show ?case by (simp split: hval.split)
qed

lemma h_value_avoiding_Ref:
  "h_value_avoiding X (Suc n) h (HRef a) =
     (if a < length h \<and> a \<notin> X then map_option PDict (items_avoiding X n h (h ! a)) else None)"
  by (simp add: items_avoiding_def)

lemma h_value_avoiding_moves:
  assumes len: "length h \<le> length h'"
    and old: "\<forall>a<length h. a \<notin> X \<longrightarrow> h' ! a = h ! a"
    and av: "\<forall>a\<in>X'. a < length h \<longrightarrow> a \<in> X"
  shows "h_value_avoiding X n h v = Some y \<Longrightarrow> h_value_avoiding X' n h' v = Some y"
proof (induction n arbitrary: v y)
  case 0
  then show ?case by simp
next
  case (Suc n)
  show ?case
  proof (cases v)
    case (HList vs)
    with Suc.prems obtain ys where ys: "those (map (h_value_avoiding X n h) vs) = Some ys"
      and y: "y = PList ys"
      by auto
    from ys have "those (map (h_value_avoiding X' n h') vs) = Some ys"
      by (rule those_map_mono) (rule Suc.IH)
    with HList y show ?thesis by simp
  next
    case (HRef a)
    with Suc.prems have a: "a < length h" "a \<notin> X" by (simp_all split: if_splits)
    with Suc.prems HRef obtain ys where
      ys: "those (map (\<lambda>(k, x). map_option (Pair k) (h_value_avoiding X n h x)) (h ! a)) = Some ys"
      and y: "y = PDict ys"
      by auto
    from ys have "those (map (\<lambda>(k, x). map_option (Pair k) (h_value_avoiding X' n h' x)) (h ! a))
                    = Some ys"
      by (rule those_map_mono) (auto dest: Suc.IH)
    moreover from a old have "h' ! a = h ! a" by simp
    moreover from a len have "a < length h'" by simp
    moreover from a av have "a \<notin> X'" by blast
    ultimately show ?thesis using HRef y by simp
  qed (use Suc.prems in auto)
qed

lemma items_avoiding_moves:
  assumes "length h \<le> length h'"
    and "\<forall>a<length h. a \<notin> X \<longrightarrow> h' ! a = h ! a"
    and "\<forall>a\<in>X'. a < length h \<longrightarrow> a \<in> X"
    and "items_avoiding X n h d = Some ys"
  shows "items_avoiding X' n h' d = Some ys"
  using assms(4) unfolding items_avoiding_def
  by (rule those_map_mono) (auto dest: h_value_avoiding_moves [OF assms(1-3)])

lemma h_merge_fuel_mono:
  "(\<forall>h base overlay res fuel'.
      h_merge_dicts fuel h base overlay = Some res \<longrightarrow> fuel \<le> fuel' \<longrightarrow>
        h_merge_dicts fuel' h base overlay = Some res)
   \<and> (\<forall>h merged overlay i res fuel'.
      h_merge_loop fuel h merged overlay i = Some res \<longrightarrow> fuel \<le> fuel' \<longrightarrow>
        h_merge_loop fuel' h merged overlay i = Some res)"
proof (induction fuel)
  case 0
  have "\<And>h merged overlay i res fuel'.
          h_merge_loop 0 h merged overlay i = Some res \<Longrightarrow>
            h_merge_loop fuel' h merged overlay i = Some res"
    subgoal for h merged overlay i res fuel'
      by (cases fuel') (auto split: if_splits)
    done
  then show ?case by simp
next
  case (Suc fuel)
  from Suc have IH1: "\<And>h base overlay res fuel'.
      h_merge_dicts fuel h base overlay = Some res \<Longrightarrow> fuel \<le> fuel' \<Longrightarrow>
        h_merge_dicts fuel' h base overlay = Some res"
    by blast
  from Suc have IH2: "\<And>h merged overlay i res fuel'.
      h_merge_loop fuel h merged overlay i = Some res \<Longrightarrow> fuel \<le> fuel' \<Longrightarrow>
        h_merge_loop fuel' h merged overlay i = Some res"
    by blast
  have P1: "h_merge_dicts fuel' h base overlay = Some res"
    if run: "h_merge_dicts (Suc fuel) h base overlay = Some res" and le: "Suc fuel \<le> fuel'"
    for h base overlay res fuel'
  proof -
    from le obtain f where f: "fuel' = Suc f" and lef: "fuel \<le> f" by (cases fuel') auto
    from run have ok: "base < length h \<and> overlay < length h"
      and loop: "h_merge_loop fuel (h @ [h ! base]) (length h) overlay 0 = Some res"
      by (simp_all split: if_splits)
    from IH2 [OF loop lef] ok show ?thesis by (simp add: f)
  qed
  have P2: "h_merge_loop fuel' h merged overlay i = Some res"
    if run: "h_merge_loop (Suc fuel) h merged overlay i = Some res" and le: "Suc fuel \<le> fuel'"
    for h merged overlay i res fuel'
  proof -
    from le obtain f where f: "fuel' = Suc f" and lef: "fuel \<le> f" by (cases fuel') auto
    show ?thesis
    proof (cases "i < length (h ! overlay)")
      case False
      with run show ?thesis by (simp add: f)
    next
      case True
      obtain k v where kv: "(h ! overlay) ! i = (k, v)" by (cases "(h ! overlay) ! i")
      show ?thesis
      proof (cases "\<exists>ov bv. v = HRef ov \<and> map_of (h ! merged) k = Some (HRef bv)")
        case False
        with run True kv
        have "h_merge_loop fuel (h[merged := AList.update k v (h ! merged)]) merged overlay (Suc i)
                = Some res"
          by (auto split: if_splits hval.splits option.splits)
        from IH2 [OF this lef] False True kv show ?thesis
          by (auto simp: f split: if_splits hval.splits option.splits)
      next
        case yes: True
        then obtain ov bv where v: "v = HRef ov" and b: "map_of (h ! merged) k = Some (HRef bv)"
          by blast
        from b have kin: "k \<in> fst ` set (h ! merged)"
          by (metis domI dom_map_of_conv_image_fst)
        from run True kv v b kin obtain h1 r1 where
          rec: "h_merge_dicts fuel h bv ov = Some (h1, r1)" and
          loop: "h_merge_loop fuel (h1[merged := AList.update k (HRef r1) (h1 ! merged)])
                   merged overlay (Suc i) = Some res"
          by (auto split: option.splits)
        from IH1 [OF rec lef] IH2 [OF loop lef] True kv v b kin show ?thesis
          by (simp add: f)
      qed
    qed
  qed
  from P1 P2 show ?case by blast
qed

lemma items_avoiding_Nil: "items_avoiding X n h [] = Some []"
  by (simp add: items_avoiding_def)

lemma items_avoiding_Cons:
  "items_avoiding X n h ((k, x) # d) = Some ys \<longleftrightarrow>
     (\<exists>y ys'. h_value_avoiding X n h x = Some y \<and> items_avoiding X n h d = Some ys'
              \<and> ys = (k, y) # ys')"
  by (auto simp: items_avoiding_def split: option.splits)

lemma items_avoiding_length:
  "items_avoiding X n h d = Some ys \<Longrightarrow> length ys = length d"
proof (induction d arbitrary: ys)
  case Nil
  then show ?case by (simp add: items_avoiding_Nil)
next
  case (Cons p d)
  obtain k x where p: "p = (k, x)" by (cases p)
  from Cons.prems show ?case
    unfolding p items_avoiding_Cons by (auto dest: Cons.IH)
qed

lemma items_avoiding_nth:
  "items_avoiding X n h d = Some ys \<Longrightarrow> i < length d \<Longrightarrow>
     fst (ys ! i) = fst (d ! i) \<and> h_value_avoiding X n h (snd (d ! i)) = Some (snd (ys ! i))"
proof (induction d arbitrary: ys i)
  case Nil
  then show ?case by simp
next
  case (Cons p d)
  obtain k x where p: "p = (k, x)" by (cases p)
  from Cons.prems(1) obtain y ys' where y: "h_value_avoiding X n h x = Some y"
    and ys': "items_avoiding X n h d = Some ys'" and ys: "ys = (k, y) # ys'"
    unfolding p items_avoiding_Cons by blast
  show ?case
  proof (cases i)
    case 0
    with y show ?thesis by (simp add: p ys)
  next
    case (Suc j)
    with Cons.prems(2) have "j < length d" by simp
    from Cons.IH [OF ys' this] show ?thesis by (simp add: Suc ys)
  qed
qed

lemma items_avoiding_map_of:
  "items_avoiding X n h d = Some ys \<Longrightarrow>
     map_of ys k = (case map_of d k of None \<Rightarrow> None | Some x \<Rightarrow> h_value_avoiding X n h x)"
proof (induction d arbitrary: ys)
  case Nil
  then show ?case by (simp add: items_avoiding_Nil)
next
  case (Cons p d)
  obtain k' x where p: "p = (k', x)" by (cases p)
  from Cons.prems obtain y ys' where y: "h_value_avoiding X n h x = Some y"
    and ys': "items_avoiding X n h d = Some ys'" and ys: "ys = (k', y) # ys'"
    unfolding p items_avoiding_Cons by blast
  from Cons.IH [OF ys'] y show ?case by (simp add: p ys)
qed

lemma items_avoiding_keys:
  "items_avoiding X n h d = Some ys \<Longrightarrow> fst ` set ys = fst ` set d"
proof (induction d arbitrary: ys)
  case Nil
  then show ?case by (simp add: items_avoiding_Nil)
next
  case (Cons p d)
  obtain k' x where p: "p = (k', x)" by (cases p)
  from Cons.prems obtain y ys' where ys': "items_avoiding X n h d = Some ys'"
    and ys: "ys = (k', y) # ys'"
    unfolding p items_avoiding_Cons by blast
  from Cons.IH [OF ys'] show ?case by (simp add: p ys)
qed

lemma items_avoiding_update:
  "items_avoiding X n h d = Some ys \<Longrightarrow> h_value_avoiding X n h x = Some y \<Longrightarrow>
     items_avoiding X n h (AList.update k x d) = Some (AList.update k y ys)"
proof (induction d arbitrary: ys)
  case Nil
  then show ?case by (simp add: items_avoiding_def)
next
  case (Cons p d)
  obtain k' x' where p: "p = (k', x')" by (cases p)
  from Cons.prems(1) obtain y' ys' where y': "h_value_avoiding X n h x' = Some y'"
    and ys': "items_avoiding X n h d = Some ys'" and ys: "ys = (k', y') # ys'"
    unfolding p items_avoiding_Cons by blast
  show ?case
  proof (cases "k' = k")
    case True
    with ys' Cons.prems(2) show ?thesis
      by (simp add: p ys items_avoiding_Cons)
  next
    case False
    with Cons.IH [OF ys' Cons.prems(2)] y' show ?thesis
      by (simp add: p ys items_avoiding_Cons)
  qed
qed

lemma h_value_avoiding_dict_iff:
  "h_value_avoiding X n h v = Some y \<Longrightarrow> (\<exists>d. y = PDict d) \<longleftrightarrow> (\<exists>a. v = HRef a)"
  by (cases n; cases v) (auto split: if_splits)

lemma h_merge_loop_refines:
  assumes S: "merge_refines_at n"
  shows "(\<forall>x\<in>X. x < length h) \<Longrightarrow> m < length h \<Longrightarrow> m \<in> X \<Longrightarrow>
     overlay < length h \<Longrightarrow> overlay \<noteq> m \<Longrightarrow>
     items_avoiding X n h (h ! m) = Some acc \<Longrightarrow>
     items_avoiding X n h (h ! overlay) = Some b \<Longrightarrow>
     \<exists>fuel h'. h_merge_loop fuel h m overlay i = Some (h', m)
        \<and> items_avoiding X n h' (h' ! m) = Some (u_merge_dicts acc (drop i b))"
proof (induction "length (h ! overlay) - i" arbitrary: h acc i)
  case 0
  from "0.prems"(7) have lb: "length b = length (h ! overlay)"
    by (rule items_avoiding_length)
  from 0 have fin: "\<not> i < length (h ! overlay)" by simp
  then have "h_merge_loop 0 h m overlay i = Some (h, m)" by simp
  moreover from fin lb "0.prems"(6)
  have "items_avoiding X n h (h ! m) = Some (u_merge_dicts acc (drop i b))" by simp
  ultimately show ?case by blast
next
  case (Suc j)
  note bound = Suc.prems(1) and m = Suc.prems(2) and mX = Suc.prems(3)
    and o = Suc.prems(4) and om = Suc.prems(5)
    and accv = Suc.prems(6) and bv = Suc.prems(7)
  from Suc.hyps(2) have i: "i < length (h ! overlay)" by simp
  from bv have lb: "length b = length (h ! overlay)" by (rule items_avoiding_length)
  obtain k v where kv: "(h ! overlay) ! i = (k, v)" by (cases "(h ! overlay) ! i")
  obtain vb where bi: "b ! i = (k, vb)" and vval: "h_value_avoiding X n h v = Some vb"
    using items_avoiding_nth [OF bv i] kv by (cases "b ! i") auto
  from i lb bi have dropb: "drop i b = (k, vb) # drop (Suc i) b"
    by (metis Cons_nth_drop_Suc)
  have keys: "k \<in> fst ` set (h ! m) \<longleftrightarrow> k \<in> fst ` set acc"
    using items_avoiding_keys [OF accv] by simp
  have look: "map_of acc k =
                (case map_of (h ! m) k of None \<Rightarrow> None | Some x \<Rightarrow> h_value_avoiding X n h x)"
    using accv by (rule items_avoiding_map_of)
  txt \<open>The rest of the loop, from any store that agrees with this one outside \<open>X\<close>.\<close>
  have rest: "\<exists>fuel h'. h_merge_loop fuel (h1[m := AList.update k x (h1 ! m)]) m overlay (Suc i)
                  = Some (h', m)
               \<and> items_avoiding X n h' (h' ! m)
                   = Some (u_merge_dicts (AList.update k y acc) (drop (Suc i) b))"
    if len1: "length h \<le> length h1" and old1: "\<forall>a<length h. h1 ! a = h ! a"
      and xy: "h_value_avoiding X n h1 x = Some y"
    for h1 x y
  proof -
    let ?h2 = "h1[m := AList.update k x (h1 ! m)]"
    from m len1 have m1: "m < length h1" by simp
    from m o om old1 have hm: "h1 ! m = h ! m" and ho: "h1 ! overlay = h ! overlay" by simp_all
    have len2: "length h \<le> length ?h2" using len1 by simp
    have old2: "\<forall>a<length h. a \<notin> X \<longrightarrow> ?h2 ! a = h ! a"
    proof (intro allI impI)
      fix a assume a: "a < length h" "a \<notin> X"
      with mX have "a \<noteq> m" by blast
      with a old1 show "?h2 ! a = h ! a" by simp
    qed
    have same: "\<forall>a\<in>X. a < length h \<longrightarrow> a \<in> X" by simp
    have len12: "length h1 \<le> length ?h2" by simp
    have old12: "\<forall>a<length h1. a \<notin> X \<longrightarrow> ?h2 ! a = h1 ! a"
    proof (intro allI impI)
      fix a assume a: "a < length h1" "a \<notin> X"
      with mX have "a \<noteq> m" by blast
      then show "?h2 ! a = h1 ! a" by simp
    qed
    have same1: "\<forall>a\<in>X. a < length h1 \<longrightarrow> a \<in> X" by simp
    have x2: "h_value_avoiding X n ?h2 x = Some y"
      using len12 old12 same1 xy by (rule h_value_avoiding_moves)
    have "items_avoiding X n ?h2 (h ! m) = Some acc"
      using len2 old2 same accv by (rule items_avoiding_moves)
    then have "items_avoiding X n ?h2 (AList.update k x (h ! m)) = Some (AList.update k y acc)"
      using x2 by (rule items_avoiding_update)
    then have acc2: "items_avoiding X n ?h2 (?h2 ! m) = Some (AList.update k y acc)"
      using m1 by (simp add: hm)
    have "items_avoiding X n ?h2 (h ! overlay) = Some b"
      using len2 old2 same bv by (rule items_avoiding_moves)
    then have b2: "items_avoiding X n ?h2 (?h2 ! overlay) = Some b"
      using om ho by simp
    have meas: "j = length (?h2 ! overlay) - Suc i"
      using Suc.hyps(2) om ho by simp
    have bound2: "\<forall>x\<in>X. x < length ?h2" using bound len1 by fastforce
    have m2: "m < length ?h2" using m1 by simp
    have o2: "overlay < length ?h2" using o len1 by simp
    from Suc.hyps(1) [OF meas bound2 m2 mX o2 om acc2 b2] show ?thesis .
  qed
  show ?case
  proof (cases "\<exists>ov bv. v = HRef ov \<and> map_of (h ! m) k = Some (HRef bv)")
    case False
    have st: "stored (map_of acc k) vb = vb"
    proof (rule ccontr)
      assume "stored (map_of acc k) vb \<noteq> vb"
      then obtain db da where vb: "vb = PDict db" and ak: "map_of acc k = Some (PDict da)"
        by (auto simp: stored_def split: pyval.splits option.splits)
      from vval vb obtain ov where "v = HRef ov"
        using h_value_avoiding_dict_iff [OF vval] by blast
      moreover from ak look obtain x where x: "map_of (h ! m) k = Some x"
        and "h_value_avoiding X n h x = Some (PDict da)"
        by (auto split: option.splits)
      then obtain bv where "x = HRef bv"
        using h_value_avoiding_dict_iff [of X n h x "PDict da"] by blast
      ultimately show False using False x by blast
    qed
    from rest [of h v vb] vval obtain fuel h' where
      loop: "h_merge_loop fuel (h[m := AList.update k v (h ! m)]) m overlay (Suc i) = Some (h', m)"
      and val: "items_avoiding X n h' (h' ! m)
                  = Some (u_merge_dicts (AList.update k vb acc) (drop (Suc i) b))"
      by auto
    from False i kv loop
    have "h_merge_loop (Suc fuel) h m overlay i = Some (h', m)"
      by (auto split: hval.splits option.splits)
    moreover have "u_merge_dicts acc (drop i b)
                     = u_merge_dicts (AList.update k vb acc) (drop (Suc i) b)"
      by (simp only: dropb u_merge_dicts_Cons st)
    ultimately show ?thesis using val by metis
  next
    case True
    then obtain ov bv' where v: "v = HRef ov" and b': "map_of (h ! m) k = Some (HRef bv')"
      by blast
    from b' have kin: "k \<in> fst ` set (h ! m)"
      by (metis domI dom_map_of_conv_image_fst)
    from vval v obtain db where vb: "vb = PDict db"
      using h_value_avoiding_dict_iff [OF vval] by blast
    from look b' have "h_value_avoiding X n h (HRef bv') = map_of acc k" by simp
    moreover from keys kin obtain ya where ya: "map_of acc k = Some ya"
      by (metis domD dom_map_of_conv_image_fst)
    ultimately have bval: "h_value_avoiding X n h (HRef bv') = Some ya" by simp
    then obtain da where ya': "ya = PDict da"
      using h_value_avoiding_dict_iff [OF bval] by blast
    from S [unfolded merge_refines_at_def] bound bval [unfolded ya'] vval [unfolded v vb]
    obtain fuel1 h1 r1 where
      rec: "h_merge_dicts fuel1 h bv' ov = Some (h1, r1)" and
      rval: "h_value_avoiding X n h1 (HRef r1) = Some (PDict (u_merge_dicts da db))"
      by blast
    from h_merge_frame [of fuel1] rec
    have len1: "length h \<le> length h1" and old1: "\<forall>a<length h. h1 ! a = h ! a"
      by (meson le_trans less_imp_le_nat)+
    from rest [OF len1 old1 rval] obtain fuel2 h' where
      loop: "h_merge_loop fuel2 (h1[m := AList.update k (HRef r1) (h1 ! m)]) m overlay (Suc i)
               = Some (h', m)"
      and val: "items_avoiding X n h' (h' ! m)
                  = Some (u_merge_dicts (AList.update k (PDict (u_merge_dicts da db)) acc)
                            (drop (Suc i) b))"
      by auto
    let ?F = "max fuel1 fuel2"
    from h_merge_fuel_mono [of fuel1] rec have rec': "h_merge_dicts ?F h bv' ov = Some (h1, r1)"
      by (meson max.cobounded1)
    from h_merge_fuel_mono [of fuel2] loop
    have loop': "h_merge_loop ?F (h1[m := AList.update k (HRef r1) (h1 ! m)]) m overlay (Suc i)
                   = Some (h', m)"
      by (meson max.cobounded2)
    from i kv v b' kin rec' loop'
    have "h_merge_loop (Suc ?F) h m overlay i = Some (h', m)" by simp
    moreover have "stored (map_of acc k) vb = PDict (u_merge_dicts da db)"
      by (simp add: stored_def ya ya' vb)
    then have "u_merge_dicts acc (drop i b)
                     = u_merge_dicts (AList.update k (PDict (u_merge_dicts da db)) acc)
                         (drop (Suc i) b)"
      by (simp only: dropb u_merge_dicts_Cons)
    ultimately show ?thesis using val by metis
  qed
qed

lemma merge_refines: "merge_refines_at n"
proof (induction n)
  case 0
  show ?case by (simp add: merge_refines_at_def)
next
  case (Suc n)
  show ?case
    unfolding merge_refines_at_def
  proof (intro allI impI)
    fix X :: "nat set" and h :: heap and base overlay a b
    assume bound: "\<forall>x\<in>X. x < length h"
      and bval: "h_value_avoiding X (Suc n) h (HRef base) = Some (PDict a)"
      and oval: "h_value_avoiding X (Suc n) h (HRef overlay) = Some (PDict b)"
    let ?m = "length h"
    let ?h1 = "h @ [h ! base]"
    let ?X = "insert ?m X"
    from bval have base: "base < length h" and a: "items_avoiding X n h (h ! base) = Some a"
      unfolding h_value_avoiding_Ref by (auto split: if_splits)
    from oval have overlay: "overlay < length h"
      and b: "items_avoiding X n h (h ! overlay) = Some b"
      unfolding h_value_avoiding_Ref by (auto split: if_splits)
    have len1: "length h \<le> length ?h1" by simp
    have old1: "\<forall>a<length h. a \<notin> X \<longrightarrow> ?h1 ! a = h ! a" by (simp add: nth_append)
    have av1: "\<forall>a\<in>?X. a < length h \<longrightarrow> a \<in> X" by simp
    have "items_avoiding ?X n ?h1 (h ! base) = Some a"
      using len1 old1 av1 a by (rule items_avoiding_moves)
    then have a1: "items_avoiding ?X n ?h1 (?h1 ! ?m) = Some a" by simp
    have "items_avoiding ?X n ?h1 (h ! overlay) = Some b"
      using len1 old1 av1 b by (rule items_avoiding_moves)
    then have b1: "items_avoiding ?X n ?h1 (?h1 ! overlay) = Some b"
      using overlay by (simp add: nth_append)
    have bound1: "\<forall>x\<in>?X. x < length ?h1" using bound by auto
    have m1: "?m < length ?h1" by simp
    have o1: "overlay < length ?h1" using overlay by simp
    have om: "overlay \<noteq> ?m" using overlay by simp
    from h_merge_loop_refines [OF Suc bound1 m1 _ o1 om a1 b1, of 0]
    obtain fuel h' where loop: "h_merge_loop fuel ?h1 ?m overlay 0 = Some (h', ?m)"
      and val: "items_avoiding ?X n h' (h' ! ?m) = Some (u_merge_dicts a b)"
      by auto
    from h_merge_frame [of fuel] loop m1 have "length ?h1 \<le> length h'" by blast
    then have m': "?m < length h'" by simp
    from bound have mX: "?m \<notin> X" by auto
    have "items_avoiding X n h' (h' ! ?m) = Some (u_merge_dicts a b)"
      using _ _ _ val by (rule items_avoiding_moves) simp_all
    with m' mX have "h_value_avoiding X (Suc n) h' (HRef ?m) = Some (PDict (u_merge_dicts a b))"
      unfolding h_value_avoiding_Ref by simp
    moreover from loop base overlay
    have "h_merge_dicts (Suc fuel) h base overlay = Some (h', ?m)" by simp
    ultimately show "\<exists>fuel h' r. h_merge_dicts fuel h base overlay = Some (h', r)
           \<and> h_value_avoiding X (Suc n) h' (HRef r) = Some (PDict (u_merge_dicts a b))"
      by blast
  qed
qed

lemma h_merge_dicts_refines:
  assumes "h_value n h (HRef base) = Some (PDict a)"
    and "h_value n h (HRef overlay) = Some (PDict b)"
  shows "\<exists>fuel h' r. h_merge_dicts fuel h base overlay = Some (h', r)
           \<and> h_value n h' (HRef r) = Some (PDict (u_merge_dicts a b))"
  using merge_refines [of n, unfolded merge_refines_at_def, rule_format, of "{}" h base a overlay b]
    assms
  by (simp add: h_value_avoiding_empty)


section \<open>The base after a merge\<close>

text \<open>
  Claim C9. When a call of the merge returns, every object that was in the store
  before the call holds the items it held before: the base, every mapping nested in
  it, the overlay. The result is a new object, and the structural value of the
  base, nested mappings included, is after the call what it was before. And the
  call does return when the base and the overlay have structural values: its result
  then has the value of the merge, and the base still has its value.
\<close>

theorem merge_leaves_base_unchanged:
  "(h_merge_dicts fuel h base overlay = Some (h', merged) \<longrightarrow>
      take (length h) h' = h
      \<and> length h \<le> merged \<and> merged < length h'
      \<and> (\<forall>n x. h_value n h (HRef base) = Some x \<longrightarrow> h_value n h' (HRef base) = Some x))
   \<and> (h_value n h (HRef base) = Some (PDict a) \<and> h_value n h (HRef overlay) = Some (PDict b) \<longrightarrow>
      (\<exists>fuel h' r. h_merge_dicts fuel h base overlay = Some (h', r)
         \<and> h_value n h' (HRef r) = Some (PDict (u_merge_dicts a b))
         \<and> h_value n h' (HRef base) = Some (PDict a)))"
proof (rule conjI; rule impI)
  assume run: "h_merge_dicts fuel h base overlay = Some (h', merged)"
  from h_merge_frame [of fuel] run
  have new: "length h \<le> merged" "merged < length h'" and old: "\<forall>a<length h. h' ! a = h ! a"
    by blast+
  from new have len: "length h \<le> length h'" by simp
  have "take (length h) h' = h"
    using len old by (intro nth_equalityI) simp_all
  moreover have "\<forall>n x. h_value n h (HRef base) = Some x \<longrightarrow> h_value n h' (HRef base) = Some x"
    using h_value_preserved [OF len old] by blast
  ultimately show "take (length h) h' = h
      \<and> length h \<le> merged \<and> merged < length h'
      \<and> (\<forall>n x. h_value n h (HRef base) = Some x \<longrightarrow> h_value n h' (HRef base) = Some x)"
    using new by simp
next
  assume vals: "h_value n h (HRef base) = Some (PDict a)
                  \<and> h_value n h (HRef overlay) = Some (PDict b)"
  then obtain fuel h' r where run: "h_merge_dicts fuel h base overlay = Some (h', r)"
    and res: "h_value n h' (HRef r) = Some (PDict (u_merge_dicts a b))"
    using h_merge_dicts_refines [of n h base a overlay b] by blast
  from h_merge_frame [of fuel] run
  have new: "length h \<le> r" "r < length h'" and old: "\<forall>a<length h. h' ! a = h ! a"
    by blast+
  from new have len: "length h \<le> length h'" by simp
  from vals have "h_value n h' (HRef base) = Some (PDict a)"
    using h_value_preserved [OF len old] by blast
  with run res show "\<exists>fuel h' r. h_merge_dicts fuel h base overlay = Some (h', r)
         \<and> h_value n h' (HRef r) = Some (PDict (u_merge_dicts a b))
         \<and> h_value n h' (HRef base) = Some (PDict a)"
    by blast
qed

theorem merge_leaves_base_unchanged_witness:
  "h_merge_dicts 6 sample_heap 0 2 = Some (sample_heap_merged, 4)
   \<and> take (length sample_heap) sample_heap_merged = sample_heap
   \<and> h_value 3 sample_heap (HRef 0)
       = Some (PDict [(''timeout'', PInt 10),
                      (''nested'', PDict [(''a'', PInt 1), (''b'', PInt 2)])])
   \<and> h_value 3 sample_heap (HRef 2)
       = Some (PDict [(''nested'', PDict [(''b'', PInt 99)]), (''tags'', PList [PStr ''x''])])
   \<and> h_value 3 sample_heap_merged (HRef 0)
       = Some (PDict [(''timeout'', PInt 10),
                      (''nested'', PDict [(''a'', PInt 1), (''b'', PInt 2)])])
   \<and> h_value 3 sample_heap_merged (HRef 4)
       = Some (PDict (u_merge_dicts
            [(''timeout'', PInt 10), (''nested'', PDict [(''a'', PInt 1), (''b'', PInt 2)])]
            [(''nested'', PDict [(''b'', PInt 99)]), (''tags'', PList [PStr ''x''])]))"
proof -
  have run: "h_merge_dicts 6 sample_heap 0 2 = Some (sample_heap_merged, 4)"
    by (simp add: eval_nat_numeral sample_heap_def sample_heap_merged_def)
  have before: "h_value 3 sample_heap (HRef 0)
       = Some (PDict [(''timeout'', PInt 10),
                      (''nested'', PDict [(''a'', PInt 1), (''b'', PInt 2)])])"
    by (simp add: eval_nat_numeral sample_heap_def)
  have over: "h_value 3 sample_heap (HRef 2)
       = Some (PDict [(''nested'', PDict [(''b'', PInt 99)]), (''tags'', PList [PStr ''x''])])"
    by (simp add: eval_nat_numeral sample_heap_def)
  have result: "h_value 3 sample_heap_merged (HRef 4)
       = Some (PDict (u_merge_dicts
            [(''timeout'', PInt 10), (''nested'', PDict [(''a'', PInt 1), (''b'', PInt 2)])]
            [(''nested'', PDict [(''b'', PInt 99)]), (''tags'', PList [PStr ''x''])]))"
    by (simp add: eval_nat_numeral sample_heap_def sample_heap_merged_def)
  note unchanged = merge_leaves_base_unchanged
    [of 6 sample_heap 0 2 sample_heap_merged 4 3
        "[(''timeout'', PInt 10), (''nested'', PDict [(''a'', PInt 1), (''b'', PInt 2)])]"
        "[(''nested'', PDict [(''b'', PInt 99)]), (''tags'', PList [PStr ''x''])]"]
  from unchanged run before have "h_value 3 sample_heap_merged (HRef 0)
       = Some (PDict [(''timeout'', PInt 10),
                      (''nested'', PDict [(''a'', PInt 1), (''b'', PInt 2)])])"
    by blast
  with unchanged run before over result show ?thesis by blast
qed

end
